theory Spec2Isabelle
  imports Complex_Main "HOL-Library.Word" "HOL-Library.Log_Nat"
begin

section \<open>Python values used by the converter\<close>

text \<open>
  The converter is a Python program (\<^verbatim>\<open>PDF_converter_V6.py\<close>, and its earlier
  version \<^verbatim>\<open>PDF_converter_V4.py\<close>). Python integers are unbounded (\<open>int\<close>).
  A finite Python float is a rational number (\<open>rat\<close>); where the code rounds a float
  to an integer (\<^verbatim>\<open>mm_to_px\<close>) its arithmetic is the binary64 arithmetic of the
  section on floats below, elsewhere (progress fractions) the quotients are exact.
  Exceptions are values of
  \<open>py_error\<close>; a function that can raise returns \<open>py_error + 'a\<close>, and a method that
  mutates the object before it raises returns the state it leaves behind together with
  the exception.
\<close>

datatype py_error =
    IndexError
  | ValueError
  | KeyError
  | OverflowError
  | NoPagesSelected    \<comment> \<open>\<^verbatim>\<open>Exception("No pages selected for export!")\<close>\<close>
  | NothingToSave      \<comment> \<open>\<^verbatim>\<open>Exception("Nothing to save for compact PDF")\<close>\<close>

text \<open>\<^verbatim>\<open>int(x)\<close> on a finite float truncates toward zero.\<close>

definition py_int :: "rat \<Rightarrow> int" where
  "py_int x = (if 0 \<le> x then \<lfloor>x\<rfloor> else \<lceil>x\<rceil>)"

text \<open>Where a call is known to return, \<open>returned\<close> reads the value it returns.\<close>

definition returned :: "py_error + int \<Rightarrow> int" where
  "returned r = (case r of Inl e \<Rightarrow> 0 | Inr n \<Rightarrow> n)"

subsection \<open>Floats\<close>

text \<open>
  A Python float is an IEEE 754 binary64 number: a finite float is a rational
  \<open>m \<cdot> 2\<^sup>e\<close> with \<open>\<bar>m\<bar> < 2\<^sup>5\<^sup>3\<close> and \<open>-1074 \<le> e \<le> 971\<close>. An arithmetic operation
  yields the exact result rounded to the nearest float, a tie going to the even
  significand; a result of magnitude \<open>2\<^sup>1\<^sup>0\<^sup>2\<^sup>4 - 2\<^sup>9\<^sup>7\<^sup>0\<close> or more is an infinity.
  \<open>fl x\<close> is this rounding of the rational \<open>x\<close>: \<open>Some\<close> finite float, or \<open>None\<close> for an
  infinity. The sign of zero and NaN play no part in the expression modelled here.
\<close>

definition pow2 :: "int \<Rightarrow> rat" where
  "pow2 e = (if 0 \<le> e then 2 ^ nat e else 1 / 2 ^ nat (- e))"

text \<open>\<open>\<lfloor>log\<^sub>2 x\<rfloor>\<close> of a positive rational, from the bit lengths of numerator and denominator.\<close>

definition ilog2 :: "rat \<Rightarrow> int" where
  "ilog2 x =
     (let (p, q) = quotient_of x;
          d = bitlen p - bitlen q
      in if pow2 d \<le> x then d else d - 1)"

text \<open>
  Rounding to the nearest integer, a tie going to the even one. This is also Python's
  \<^verbatim>\<open>round(x)\<close> on a float.
\<close>

definition round_half_even :: "rat \<Rightarrow> int" where
  "round_half_even y =
     (let f = \<lfloor>y\<rfloor>; r = y - of_int f
      in if r < 1 / 2 then f else if 1 / 2 < r then f + 1 else if even f then f else f + 1)"

definition fl :: "rat \<Rightarrow> rat option" where
  "fl x =
     (if x = 0 then Some 0
      else (let a = \<bar>x\<bar>;
                e = max (ilog2 a - 52) (- 1074);
                r = of_int (round_half_even (a / pow2 e)) * pow2 e
            in if pow2 1024 \<le> r then None else Some (sgn x * r)))"

text \<open>The float that the literal \<^verbatim>\<open>25.4\<close> denotes.\<close>

definition float_25_4 :: rat where
  "float_25_4 = 3574732204225331 / 140737488355328"

text \<open>\<^verbatim>\<open>range(a, b)\<close>, as the list of its elements.\<close>

definition py_range :: "int \<Rightarrow> int \<Rightarrow> int list" where
  "py_range a b = [a..b - 1]"

text \<open>
  \<^verbatim>\<open>xs[i]\<close>: a negative index counts from the end, an index outside
  \<open>-len \<le> i < len\<close> raises IndexError.
\<close>

definition py_norm_index :: "nat \<Rightarrow> int \<Rightarrow> nat option" where
  "py_norm_index n i =
     (let j = (if i < 0 then int n + i else i)
      in if 0 \<le> j \<and> j < int n then Some (nat j) else None)"

definition py_getitem :: "'a list \<Rightarrow> int \<Rightarrow> py_error + 'a" where
  "py_getitem xs i =
     (case py_norm_index (length xs) i of
        None \<Rightarrow> Inl IndexError
      | Some j \<Rightarrow> Inr (xs ! j))"

text \<open>\<^verbatim>\<open>xs[i] = v\<close>.\<close>

definition py_setitem :: "'a list \<Rightarrow> int \<Rightarrow> 'a \<Rightarrow> py_error + 'a list" where
  "py_setitem xs i v =
     (case py_norm_index (length xs) i of
        None \<Rightarrow> Inl IndexError
      | Some j \<Rightarrow> Inr (xs[j := v]))"

text \<open>
  \<^verbatim>\<open>xs.insert(i, v)\<close> never raises: a negative index counts from the end and the
  position is clamped to \<open>0 .. len\<close>.
\<close>

definition py_insert :: "'a list \<Rightarrow> int \<Rightarrow> 'a \<Rightarrow> 'a list" where
  "py_insert xs i v =
     (let n = int (length xs);
          j = (if i < 0 then max 0 (n + i) else min i n)
      in take (nat j) xs @ v # drop (nat j) xs)"

text \<open>
  \<^verbatim>\<open>arr[i], arr[j] = arr[j], arr[i]\<close>: both reads happen first, then \<open>arr[i]\<close> is
  written, then \<open>arr[j]\<close>.
\<close>

definition py_swap :: "'a list \<Rightarrow> int \<Rightarrow> int \<Rightarrow> py_error + 'a list" where
  "py_swap arr i j =
     (case py_getitem arr j of
        Inl e \<Rightarrow> Inl e
      | Inr aj \<Rightarrow>
          (case py_getitem arr i of
             Inl e \<Rightarrow> Inl e
           | Inr ai \<Rightarrow>
               (case py_setitem arr i aj of
                  Inl e \<Rightarrow> Inl e
                | Inr arr' \<Rightarrow> py_setitem arr' j ai)))"

subsection \<open>Strings\<close>

text \<open>
  A \<open>string\<close> is the sequence of the code points of a Python \<^verbatim>\<open>str\<close>, restricted to
  code points below 256. \<open>is_space\<close> lists the code points in that range that
  \<^verbatim>\<open>str.strip()\<close> removes; \<open>is_int_space\<close> lists those that \<^verbatim>\<open>int()\<close> skips
  around a number, which are fewer: \<^verbatim>\<open>int()\<close> rejects the separators 28 to 31.
\<close>

definition is_space :: "char \<Rightarrow> bool" where
  "is_space c = ((of_char c :: nat) \<in> {9, 10, 11, 12, 13, 28, 29, 30, 31, 32, 133, 160})"

definition is_int_space :: "char \<Rightarrow> bool" where
  "is_int_space c = ((of_char c :: nat) \<in> {9, 10, 11, 12, 13, 32, 133, 160})"

definition is_digit :: "char \<Rightarrow> bool" where
  "is_digit c = (48 \<le> (of_char c :: nat) \<and> (of_char c :: nat) \<le> 57)"

definition digit_val :: "char \<Rightarrow> int" where
  "digit_val c = int (of_char c) - 48"

definition py_strip :: "string \<Rightarrow> string" where
  "py_strip s = rev (dropWhile is_space (rev (dropWhile is_space s)))"

text \<open>\<^verbatim>\<open>s.split(sep)\<close> for a one-character separator: every occurrence splits.\<close>

fun py_split :: "char \<Rightarrow> string \<Rightarrow> string list" where
  "py_split sep [] = [[]]"
| "py_split sep (c # cs) =
     (if c = sep then [] # py_split sep cs
      else (case py_split sep cs of
              [] \<Rightarrow> [[c]]
            | w # ws \<Rightarrow> (c # w) # ws))"

text \<open>
  \<^verbatim>\<open>int(s)\<close> on a string: surrounding white space is skipped, one sign is allowed, then
  come decimal digits, where single underscores may separate digits. Anything else
  raises ValueError, and so does a number of more than \<open>int_max_str_digits\<close> digits
  (the interpreter's limit, 4300 unless configured otherwise).
\<close>

definition int_max_str_digits :: nat where
  "int_max_str_digits = 4300"

fun digits_ok :: "bool \<Rightarrow> string \<Rightarrow> bool" where
  "digits_ok prev_digit [] = prev_digit"
| "digits_ok prev_digit (c # cs) =
     (if is_digit c then digits_ok True cs
      else if c = CHR ''_'' \<and> prev_digit then (cs \<noteq> [] \<and> is_digit (hd cs) \<and> digits_ok False cs)
      else False)"

fun digits_value :: "int \<Rightarrow> string \<Rightarrow> int" where
  "digits_value acc [] = acc"
| "digits_value acc (c # cs) =
     (if is_digit c then digits_value (acc * 10 + digit_val c) cs else digits_value acc cs)"

definition py_int_of_str :: "string \<Rightarrow> py_error + int" where
  "py_int_of_str s =
     (let t = rev (dropWhile is_int_space (rev (dropWhile is_int_space s)));
          neg = (t \<noteq> [] \<and> hd t = CHR ''-'');
          body = (if t \<noteq> [] \<and> (hd t = CHR ''-'' \<or> hd t = CHR ''+'') then tl t else t)
      in if digits_ok False body \<and> length (filter is_digit body) \<le> int_max_str_digits
         then Inr (if neg then - digits_value 0 body else digits_value 0 body)
         else Inl ValueError)"

section \<open>Constants and utilities\<close>

definition DEFAULT_DPI :: int where
  "DEFAULT_DPI = 200"

text \<open>\<^verbatim>\<open>PAPER_SIZES_MM.get(paper, PAPER_SIZES_MM["A4"])\<close>: width and height in mm.\<close>

definition PAPER_SIZES_MM :: "string \<Rightarrow> rat \<times> rat" where
  "PAPER_SIZES_MM paper = (if paper = ''Letter'' then (216, 279) else (210, 297))"

text \<open>
  \<^verbatim>\<open>def mm_to_px(mm, dpi): return int(mm * dpi / 25.4)\<close>, with \<open>mm\<close> a finite float
  and \<open>dpi\<close> an integer. \<open>float_quotient\<close> is the float \<^verbatim>\<open>mm * dpi / 25.4\<close>: the integer
  is converted to a float, the product is rounded, the quotient is rounded. An integer too
  large for a float raises OverflowError at the conversion; an infinite product gives an
  infinite quotient, on which \<^verbatim>\<open>int\<close> raises OverflowError.
\<close>

definition float_quotient :: "rat \<Rightarrow> int \<Rightarrow> rat option" where
  "float_quotient mm dpi =
     (case fl (of_int dpi) of
        None \<Rightarrow> None
      | Some d \<Rightarrow>
          (case fl (mm * d) of
             None \<Rightarrow> None
           | Some p \<Rightarrow> fl (p / float_25_4)))"

definition mm_to_px :: "rat \<Rightarrow> int \<Rightarrow> py_error + int" where
  "mm_to_px mm dpi =
     (case float_quotient mm dpi of
        None \<Rightarrow> Inl OverflowError
      | Some q \<Rightarrow> Inr (py_int q))"

section \<open>Images and the imaging library\<close>

text \<open>
  A page is a raster image: a mode, a size (width, height) and the bytes of its bands,
  as \<^verbatim>\<open>Image.frombytes("RGB", [pix.width, pix.height], pix.samples)\<close> builds it in
  \<^verbatim>\<open>load_pdf\<close>. A channel value is an 8-bit word.
\<close>

datatype mode = Mode_L | Mode_RGB

record image =
  im_mode :: mode
  im_size :: "nat \<times> nat"
  im_data :: "8 word list"

text \<open>What the page rasterizer (\<^verbatim>\<open>p.get_pixmap(dpi=DEFAULT_DPI)\<close>) hands over for one page.\<close>

record pixmap =
  pix_width :: nat
  pix_height :: nat
  pix_samples :: "8 word list"

definition Image_frombytes :: "mode \<Rightarrow> nat \<times> nat \<Rightarrow> 8 word list \<Rightarrow> image" where
  "Image_frombytes md sz samples = \<lparr>im_mode = md, im_size = sz, im_data = samples\<rparr>"

text \<open>
  Modelled from the spec: \<^verbatim>\<open>ImageOps.invert\<close> belongs to the imaging library, which is
  not part of the repository. The specification gives its effect: full colour inversion,
  each channel value \<open>v\<close> becomes \<open>max - v\<close>; for 8-bit channels \<open>max\<close> is 255. Mode and
  size are those of the argument.
\<close>

definition ImageOps_invert :: "image \<Rightarrow> image" where
  "ImageOps_invert img = img\<lparr>im_data := map (\<lambda>v. 255 - v) (im_data img)\<rparr>"

text \<open>
  The other calls into the imaging library are parameters of the model: resampling,
  enhancement and the JPEG codec compute with floating point and are not part of the
  repository. Every function below that reaches the library takes this record.
  An image method that mutates its receiver (\<^verbatim>\<open>paste\<close>, \<^verbatim>\<open>thumbnail\<close>, drawing) is
  a function from the old image value to the new one.
\<close>

record pil =
  Image_new :: "nat \<times> nat \<Rightarrow> image"
    \<comment> \<open>\<^verbatim>\<open>Image.new("RGB", size, "white")\<close>\<close>
  convert :: "image \<Rightarrow> mode \<Rightarrow> image"
    \<comment> \<open>\<^verbatim>\<open>img.convert(mode)\<close>\<close>
  Contrast_enhance :: "image \<Rightarrow> rat \<Rightarrow> image"
    \<comment> \<open>\<^verbatim>\<open>ImageEnhance.Contrast(img).enhance(factor)\<close>\<close>
  Brightness_enhance :: "image \<Rightarrow> rat \<Rightarrow> image"
    \<comment> \<open>\<^verbatim>\<open>ImageEnhance.Brightness(img).enhance(factor)\<close>\<close>
  Sharpness_enhance :: "image \<Rightarrow> rat \<Rightarrow> image"
    \<comment> \<open>\<^verbatim>\<open>ImageEnhance.Sharpness(img).enhance(factor)\<close>\<close>
  draw_text :: "image \<Rightarrow> string \<Rightarrow> image"
    \<comment> \<open>\<^verbatim>\<open>ImageDraw.Draw(img).text((50, 50), text, fill="black", font=load_default())\<close>\<close>
  thumbnail :: "image \<Rightarrow> int \<times> int \<Rightarrow> image"
    \<comment> \<open>\<^verbatim>\<open>img.thumbnail((w, h), Image.LANCZOS)\<close>\<close>
  paste :: "image \<Rightarrow> image \<Rightarrow> int \<times> int \<Rightarrow> image"
    \<comment> \<open>\<^verbatim>\<open>sheet.paste(img, (x, y))\<close>: the sheet afterwards\<close>
  draw_rectangle :: "image \<Rightarrow> int \<times> int \<times> int \<times> int \<Rightarrow> image"
    \<comment> \<open>\<^verbatim>\<open>draw.rectangle([x0, y0, x1, y1], outline="black", width=1)\<close>: the image afterwards\<close>
  transpose_ROTATE_270 :: "image \<Rightarrow> image"
    \<comment> \<open>\<^verbatim>\<open>img.transpose(Image.Transpose.ROTATE_270)\<close>: a new image\<close>
  jpeg_reopen :: "image \<Rightarrow> int \<Rightarrow> image"
    \<comment> \<open>\<^verbatim>\<open>img.save(buf, format="JPEG", quality=q)\<close>, then \<^verbatim>\<open>Image.open\<close> of the bytes\<close>

section \<open>Settings\<close>

text \<open>
  The enhancement settings are a dictionary with the keys \<^verbatim>\<open>contrast\<close>,
  \<^verbatim>\<open>brightness\<close>, \<^verbatim>\<open>sharpness\<close> and \<^verbatim>\<open>grayscale\<close>; a key may be missing (a
  settings file written by hand). An EnhancementParameters value of the specification
  has all four.
\<close>

record settings =
  st_contrast :: "rat option"
  st_brightness :: "rat option"
  st_sharpness :: "rat option"
  st_grayscale :: "bool option"

definition dict_get :: "'a option \<Rightarrow> 'a \<Rightarrow> 'a" where
  "dict_get v d = (case v of None \<Rightarrow> d | Some x \<Rightarrow> x)"

definition enhancement_parameters :: "rat \<Rightarrow> rat \<Rightarrow> rat \<Rightarrow> bool \<Rightarrow> settings" where
  "enhancement_parameters c b s g =
     \<lparr>st_contrast = Some c, st_brightness = Some b, st_sharpness = Some s, st_grayscale = Some g\<rparr>"

section \<open>PDFManager\<close>

record manager =
  original_pages :: "image list"
  pages :: "image list"
  selected :: "bool list"

text \<open>
  A progress callback is optional (\<^verbatim>\<open>if progress_callback: progress_callback(v)\<close>). Its
  effect is a change of the caller's state \<open>'u\<close>.
\<close>

type_synonym 'u callback = "(rat \<Rightarrow> 'u \<Rightarrow> 'u) option"

definition notify :: "'u callback \<Rightarrow> rat \<Rightarrow> 'u \<Rightarrow> 'u" where
  "notify progress_callback v u = (case progress_callback of None \<Rightarrow> u | Some f \<Rightarrow> f v u)"

text \<open>The callback that records the values it is called with, in order.\<close>

definition recording :: "(rat list) callback" where
  "recording = Some (\<lambda>v trace. trace @ [v])"

subsection \<open>\<^verbatim>\<open>process_image\<close>\<close>

text \<open>
  Version 6 reads the settings with defaults
  (\<^verbatim>\<open>settings.get("grayscale", True)\<close>, \<^verbatim>\<open>settings.get("contrast", 1.2)\<close>, ...).
\<close>

definition process_image :: "pil \<Rightarrow> image \<Rightarrow> settings \<Rightarrow> image" where
  "process_image lib img st =
     (let inverted = ImageOps_invert img;
          processed = (if dict_get (st_grayscale st) True
                       then convert lib (convert lib inverted Mode_L) Mode_RGB
                       else inverted);
          processed = Contrast_enhance lib processed (dict_get (st_contrast st) (12 / 10));
          processed = Brightness_enhance lib processed (dict_get (st_brightness st) 1);
          processed = Sharpness_enhance lib processed (dict_get (st_sharpness st) 1)
      in processed)"

text \<open>Version 4 subscripts the dictionary: a missing key raises KeyError.\<close>

definition process_image_V4 :: "pil \<Rightarrow> image \<Rightarrow> settings \<Rightarrow> py_error + image" where
  "process_image_V4 lib img st =
     (let inverted = ImageOps_invert img in
      case st_grayscale st of
        None \<Rightarrow> Inl KeyError
      | Some g \<Rightarrow>
          (let processed = (if g then convert lib (convert lib inverted Mode_L) Mode_RGB
                            else inverted) in
           case st_contrast st of
             None \<Rightarrow> Inl KeyError
           | Some c \<Rightarrow>
               (let processed = Contrast_enhance lib processed c in
                case st_brightness st of
                  None \<Rightarrow> Inl KeyError
                | Some b \<Rightarrow>
                    (let processed = Brightness_enhance lib processed b in
                     case st_sharpness st of
                       None \<Rightarrow> Inl KeyError
                     | Some s \<Rightarrow> Inr (Sharpness_enhance lib processed s)))))"

subsection \<open>\<^verbatim>\<open>load_pdf\<close>\<close>

text \<open>
  \<open>doc\<close> is what the rasterizer yields for the pages of the opened file, in order.
  Opening or rendering can fail outside the program; that is not modelled.
\<close>

fun load_loop ::
  "pil \<Rightarrow> settings \<Rightarrow> 'u callback \<Rightarrow> int \<Rightarrow> int \<Rightarrow> pixmap list \<Rightarrow> manager \<Rightarrow> 'u \<Rightarrow> manager \<times> 'u"
where
  "load_loop lib st cb tot idx [] m u = (m, u)"
| "load_loop lib st cb tot idx (pix # rest) m u =
     (let img = Image_frombytes Mode_RGB (pix_width pix, pix_height pix) (pix_samples pix);
          m = m\<lparr>original_pages := original_pages m @ [img]\<rparr>;
          m = m\<lparr>pages := pages m @ [process_image lib img st]\<rparr>;
          u = notify cb (of_int (idx + 1) / of_int tot) u
      in load_loop lib st cb tot (idx + 1) rest m u)"

definition load_pdf ::
  "pil \<Rightarrow> pixmap list \<Rightarrow> settings \<Rightarrow> 'u callback \<Rightarrow> manager \<Rightarrow> 'u \<Rightarrow> manager \<times> 'u"
where
  "load_pdf lib doc st cb m u =
     (let m = m\<lparr>original_pages := [], pages := []\<rparr>;
          tot = int (length doc);
          (m, u) = load_loop lib st cb tot 0 doc m u
      in (m\<lparr>selected := replicate (length (pages m)) True\<rparr>, u))"

subsection \<open>Reprocessing\<close>

definition reprocess_current_page ::
  "pil \<Rightarrow> int \<Rightarrow> settings \<Rightarrow> manager \<Rightarrow> manager \<times> py_error option"
where
  "reprocess_current_page lib index st m =
     (if 0 \<le> index \<and> index < int (length (original_pages m))
      then (case py_setitem (pages m) index
                   (process_image lib (original_pages m ! nat index) st) of
              Inl e \<Rightarrow> (m, Some e)
            | Inr ps \<Rightarrow> (m\<lparr>pages := ps\<rparr>, None))
      else (m, None))"

fun reprocess_all_loop ::
  "pil \<Rightarrow> settings \<Rightarrow> 'u callback \<Rightarrow> int \<Rightarrow> int \<Rightarrow> image list \<Rightarrow> manager \<Rightarrow> 'u
   \<Rightarrow> manager \<times> 'u \<times> py_error option"
where
  "reprocess_all_loop lib st cb tot idx [] m u = (m, u, None)"
| "reprocess_all_loop lib st cb tot idx (img # rest) m u =
     (case py_setitem (pages m) idx (process_image lib img st) of
        Inl e \<Rightarrow> (m, u, Some e)
      | Inr ps \<Rightarrow>
          reprocess_all_loop lib st cb tot (idx + 1) rest (m\<lparr>pages := ps\<rparr>)
            (notify cb (of_int (idx + 1) / of_int tot) u))"

definition reprocess_all_pages ::
  "pil \<Rightarrow> settings \<Rightarrow> 'u callback \<Rightarrow> manager \<Rightarrow> 'u \<Rightarrow> manager \<times> 'u \<times> py_error option"
where
  "reprocess_all_pages lib st cb m u =
     reprocess_all_loop lib st cb (int (length (original_pages m))) 0 (original_pages m) m u"

subsection \<open>Inserting and moving pages\<close>

text \<open>
  Version 6 returns at once on an empty document. \<^verbatim>\<open>blank.copy()\<close> is the same image
  value as \<^verbatim>\<open>blank\<close>; the two list entries are distinct objects, and no later code
  updates a stored page in place.
\<close>

definition insert_blank_page :: "pil \<Rightarrow> int \<Rightarrow> manager \<Rightarrow> manager" where
  "insert_blank_page lib index m =
     (if pages m = [] then m
      else (let blank = Image_new lib (im_size (pages m ! 0));
                m = m\<lparr>original_pages := py_insert (original_pages m) index blank\<rparr>;
                m = m\<lparr>pages := py_insert (pages m) index blank\<rparr>;
                m = m\<lparr>selected := py_insert (selected m) index True\<rparr>
            in m))"

definition insert_text_page :: "pil \<Rightarrow> int \<Rightarrow> string \<Rightarrow> manager \<Rightarrow> manager" where
  "insert_text_page lib index text m =
     (if pages m = [] then m
      else (let img = Image_new lib (im_size (pages m ! 0));
                img = draw_text lib img text;
                m = m\<lparr>original_pages := py_insert (original_pages m) index img\<rparr>;
                m = m\<lparr>pages := py_insert (pages m) index img\<rparr>;
                m = m\<lparr>selected := py_insert (selected m) index True\<rparr>
            in m))"

text \<open>Version 4 has no guard: \<^verbatim>\<open>self.pages[0]\<close> raises IndexError on an empty document.\<close>

definition insert_blank_page_V4 :: "pil \<Rightarrow> int \<Rightarrow> manager \<Rightarrow> manager \<times> py_error option" where
  "insert_blank_page_V4 lib index m =
     (case py_getitem (pages m) 0 of
        Inl e \<Rightarrow> (m, Some e)
      | Inr p0 \<Rightarrow>
          (let blank = Image_new lib (im_size p0);
               m = m\<lparr>original_pages := py_insert (original_pages m) index blank\<rparr>;
               m = m\<lparr>pages := py_insert (pages m) index blank\<rparr>;
               m = m\<lparr>selected := py_insert (selected m) index True\<rparr>
           in (m, None)))"

definition insert_text_page_V4 ::
  "pil \<Rightarrow> int \<Rightarrow> string \<Rightarrow> manager \<Rightarrow> manager \<times> py_error option"
where
  "insert_text_page_V4 lib index text m =
     (case py_getitem (pages m) 0 of
        Inl e \<Rightarrow> (m, Some e)
      | Inr p0 \<Rightarrow>
          (let img = Image_new lib (im_size p0);
               img = draw_text lib img text;
               m = m\<lparr>original_pages := py_insert (original_pages m) index img\<rparr>;
               m = m\<lparr>pages := py_insert (pages m) index img\<rparr>;
               m = m\<lparr>selected := py_insert (selected m) index True\<rparr>
           in (m, None)))"

text \<open>
  \<^verbatim>\<open>move_page\<close> (the same in both versions) guards with the length of \<^verbatim>\<open>pages\<close> and
  then swaps in \<^verbatim>\<open>pages\<close>, \<^verbatim>\<open>original_pages\<close> and \<^verbatim>\<open>selected\<close>, in this order.
  A shorter list would raise IndexError after the earlier lists were swapped.
\<close>

definition move_page :: "int \<Rightarrow> int \<Rightarrow> manager \<Rightarrow> manager \<times> py_error option" where
  "move_page index direction m =
     (let new_index = index + direction in
      if 0 \<le> index \<and> index < int (length (pages m))
         \<and> 0 \<le> new_index \<and> new_index < int (length (pages m))
      then (case py_swap (pages m) index new_index of
              Inl e \<Rightarrow> (m, Some e)
            | Inr ps \<Rightarrow>
                (let m = m\<lparr>pages := ps\<rparr> in
                 case py_swap (original_pages m) index new_index of
                   Inl e \<Rightarrow> (m, Some e)
                 | Inr os \<Rightarrow>
                     (let m = m\<lparr>original_pages := os\<rparr> in
                      case py_swap (selected m) index new_index of
                        Inl e \<Rightarrow> (m, Some e)
                      | Inr ss \<Rightarrow> (m\<lparr>selected := ss\<rparr>, None))))
      else (m, None))"

subsection \<open>Reverting (\<^verbatim>\<open>PDFConverterGUI.revert_current_page\<close>, \<^verbatim>\<open>revert_all\<close>)\<close>

definition revert_current_page :: "int \<Rightarrow> manager \<Rightarrow> manager \<times> py_error option" where
  "revert_current_page current_index m =
     (if pages m = [] then (m, None)
      else (case py_getitem (original_pages m) current_index of
              Inl e \<Rightarrow> (m, Some e)
            | Inr orig \<Rightarrow>
                (case py_setitem (pages m) current_index orig of
                   Inl e \<Rightarrow> (m, Some e)
                 | Inr ps \<Rightarrow> (m\<lparr>pages := ps\<rparr>, None))))"

fun revert_all_loop :: "int list \<Rightarrow> manager \<Rightarrow> manager \<times> py_error option" where
  "revert_all_loop [] m = (m, None)"
| "revert_all_loop (i # rest) m =
     (case py_getitem (original_pages m) i of
        Inl e \<Rightarrow> (m, Some e)
      | Inr orig \<Rightarrow>
          (case py_setitem (pages m) i orig of
             Inl e \<Rightarrow> (m, Some e)
           | Inr ps \<Rightarrow> revert_all_loop rest (m\<lparr>pages := ps\<rparr>)))"

definition revert_all :: "manager \<Rightarrow> manager \<times> py_error option" where
  "revert_all m =
     (if pages m = [] then (m, None)
      else revert_all_loop (py_range 0 (int (length (pages m)))) m)"

subsection \<open>\<^verbatim>\<open>parse_ranges\<close>\<close>

text \<open>
  Version 6. The loop over \<^verbatim>\<open>s.split(",")\<close> appends to \<^verbatim>\<open>result\<close>;
  \<^verbatim>\<open>start, end = part.split("-")\<close> raises ValueError unless the split has exactly two
  pieces, and so does \<^verbatim>\<open>int\<close> on a piece that is not a number.
\<close>

fun parse_loop :: "int list \<Rightarrow> string list \<Rightarrow> py_error + int list" where
  "parse_loop result [] = Inr result"
| "parse_loop result (p # parts) =
     (let part = py_strip p in
      if part = [] then parse_loop result parts
      else if CHR ''-'' \<in> set part then
        (case py_split CHR ''-'' part of
           [start, end] \<Rightarrow>
             (case py_int_of_str start of
                Inl e \<Rightarrow> Inl e
              | Inr a \<Rightarrow>
                  (case py_int_of_str end of
                     Inl e \<Rightarrow> Inl e
                   | Inr b \<Rightarrow> parse_loop (result @ py_range (a - 1) b) parts))
         | _ \<Rightarrow> Inl ValueError)
      else
        (case py_int_of_str part of
           Inl e \<Rightarrow> Inl e
         | Inr a \<Rightarrow> parse_loop (result @ [a - 1]) parts))"

definition parse_ranges :: "manager \<Rightarrow> string \<Rightarrow> py_error + int list" where
  "parse_ranges m s =
     (if s = [] \<or> py_strip s = [] then Inr (py_range 0 (int (length (pages m))))
      else (case parse_loop [] (py_split CHR '','' s) of
              Inl e \<Rightarrow> Inl e
            | Inr result \<Rightarrow>
                Inr (filter (\<lambda>i. 0 \<le> i \<and> i < int (length (pages m))) result)))"

text \<open>
  Version 4 has neither the test for a blank string, nor the stripping of the parts, nor the
  final filter.
\<close>

fun parse_loop_V4 :: "int list \<Rightarrow> string list \<Rightarrow> py_error + int list" where
  "parse_loop_V4 result [] = Inr result"
| "parse_loop_V4 result (part # parts) =
     (if CHR ''-'' \<in> set part then
        (case py_split CHR ''-'' part of
           [start, end] \<Rightarrow>
             (case py_int_of_str start of
                Inl e \<Rightarrow> Inl e
              | Inr a \<Rightarrow>
                  (case py_int_of_str end of
                     Inl e \<Rightarrow> Inl e
                   | Inr b \<Rightarrow> parse_loop_V4 (result @ py_range (a - 1) b) parts))
         | _ \<Rightarrow> Inl ValueError)
      else
        (case py_int_of_str part of
           Inl e \<Rightarrow> Inl e
         | Inr a \<Rightarrow> parse_loop_V4 (result @ [a - 1]) parts))"

definition parse_ranges_V4 :: "string \<Rightarrow> py_error + int list" where
  "parse_ranges_V4 s = parse_loop_V4 [] (py_split CHR '','' s)"

subsection \<open>\<^verbatim>\<open>export_pdf\<close>\<close>

text \<open>
  The output files: a path holds the document written there, which is the list of the
  images handed to the multi-page writer
  (\<^verbatim>\<open>first.save(out_path, save_all=True, append_images=rest)\<close>). A failure of the
  writer itself (an unwritable path) is outside the model.
\<close>

type_synonym files = "string \<rightharpoonup> image list"

definition save_pdf :: "files \<Rightarrow> string \<Rightarrow> image \<Rightarrow> image list \<Rightarrow> files" where
  "save_pdf fs out_path first append_images = fs(out_path \<mapsto> first # append_images)"

text \<open>
  Version 6:
  \<^verbatim>\<open>export_pdf(self, out_path, page_indices, progress_callback=None, quality=85)\<close>.
  The first loop collects the selected pages; the second loop appends every collected
  image to \<^verbatim>\<open>pil_pages_for_pdf\<close> as it is. The parameter \<^verbatim>\<open>quality\<close> is not read
  anywhere in the body.
\<close>

fun export_loop ::
  "pil \<Rightarrow> manager \<Rightarrow> 'u callback \<Rightarrow> int \<Rightarrow> int \<Rightarrow> int list \<Rightarrow> image list \<Rightarrow> 'u
   \<Rightarrow> (py_error + image list) \<times> 'u"
where
  "export_loop lib m cb tot i [] export_pages u = (Inr export_pages, u)"
| "export_loop lib m cb tot i (idx # rest) export_pages u =
     (case py_getitem (selected m) idx of
        Inl e \<Rightarrow> (Inl e, u)
      | Inr sel \<Rightarrow>
          (case (if sel
                 then (case py_getitem (pages m) idx of
                         Inl e \<Rightarrow> Inl e
                       | Inr img \<Rightarrow> Inr (export_pages @ [convert lib img Mode_RGB]))
                 else Inr export_pages) of
             Inl e \<Rightarrow> (Inl e, u)
           | Inr export_pages \<Rightarrow>
               export_loop lib m cb tot (i + 1) rest export_pages
                 (notify cb (of_int (i + 1) / of_int tot) u)))"

definition export_pdf ::
  "pil \<Rightarrow> string \<Rightarrow> int list \<Rightarrow> 'u callback \<Rightarrow> int \<Rightarrow> manager \<Rightarrow> files \<Rightarrow> 'u
   \<Rightarrow> files \<times> 'u \<times> py_error option"
where
  "export_pdf lib out_path page_indices cb quality m fs u =
     (let tot = int (length page_indices) in
      case export_loop lib m cb tot 0 page_indices [] u of
        (Inl e, u) \<Rightarrow> (fs, u, Some e)
      | (Inr export_pages, u) \<Rightarrow>
          if export_pages = [] then (fs, u, Some NoPagesSelected)
          else (let pil_pages_for_pdf = foldl (\<lambda>acc img. acc @ [img]) [] export_pages in
                case pil_pages_for_pdf of
                  [] \<Rightarrow> (fs, u, Some IndexError)
                | first # rest \<Rightarrow> (save_pdf fs out_path first rest, u, None)))"

text \<open>
  Version 4:
  \<^verbatim>\<open>export_pdf(self, out_path, settings, page_range=None, progress_callback=None)\<close>.
  The indices come from \<^verbatim>\<open>parse_ranges(page_range) if page_range else
  range(len(self.pages))\<close> (\<open>requested_indices_V4\<close>); the pages are appended without
  conversion. The \<^verbatim>\<open>settings\<close> argument is not read.
\<close>

fun export_loop_V4 ::
  "manager \<Rightarrow> 'u callback \<Rightarrow> int \<Rightarrow> int \<Rightarrow> int list \<Rightarrow> image list \<Rightarrow> 'u
   \<Rightarrow> (py_error + image list) \<times> 'u"
where
  "export_loop_V4 m cb tot i [] export_pages u = (Inr export_pages, u)"
| "export_loop_V4 m cb tot i (idx # rest) export_pages u =
     (case py_getitem (selected m) idx of
        Inl e \<Rightarrow> (Inl e, u)
      | Inr sel \<Rightarrow>
          (case (if sel
                 then (case py_getitem (pages m) idx of
                         Inl e \<Rightarrow> Inl e
                       | Inr img \<Rightarrow> Inr (export_pages @ [img]))
                 else Inr export_pages) of
             Inl e \<Rightarrow> (Inl e, u)
           | Inr export_pages \<Rightarrow>
               export_loop_V4 m cb tot (i + 1) rest export_pages
                 (notify cb (of_int (i + 1) / of_int tot) u)))"

definition requested_indices_V4 :: "manager \<Rightarrow> string option \<Rightarrow> py_error + int list" where
  "requested_indices_V4 m page_range =
     (case page_range of
        None \<Rightarrow> Inr (py_range 0 (int (length (pages m))))
      | Some s \<Rightarrow> if s = [] then Inr (py_range 0 (int (length (pages m))))
                  else parse_ranges_V4 s)"

definition export_pdf_V4 ::
  "string \<Rightarrow> string option \<Rightarrow> 'u callback \<Rightarrow> manager \<Rightarrow> files \<Rightarrow> 'u
   \<Rightarrow> files \<times> 'u \<times> py_error option"
where
  "export_pdf_V4 out_path page_range cb m fs u =
     (case requested_indices_V4 m page_range of
        Inl e \<Rightarrow> (fs, u, Some e)
      | Inr indices \<Rightarrow>
          (let tot = int (length indices) in
           case export_loop_V4 m cb tot 0 indices [] u of
             (Inl e, u) \<Rightarrow> (fs, u, Some e)
           | (Inr export_pages, u) \<Rightarrow>
               (case export_pages of
                  [] \<Rightarrow> (fs, u, Some NoPagesSelected)
                | first # rest \<Rightarrow> (save_pdf fs out_path first rest, u, None))))"

section \<open>The compact layout maker (\<^verbatim>\<open>PDFConverterGUI\<close>, version 6)\<close>

text \<open>
  The progress bar: \<^verbatim>\<open>_set_progress(value, text)\<close> stores \<open>value\<close> in the progress
  variable. The state kept here is the sequence of the values set so far, in the order
  in which the worker issues them. (The worker hands some of the calls to the event loop
  of the user interface; their scheduling there is not modelled.)
\<close>

definition set_progress :: "rat \<Rightarrow> rat list \<Rightarrow> rat list" where
  "set_progress v u = u @ [v]"

text \<open>\<^verbatim>\<open>_thread_progress_callback\<close>, the callback the GUI passes to the manager.\<close>

definition thread_progress_callback :: "(rat list) callback" where
  "thread_progress_callback = Some set_progress"

record layout_options =
  lo_layout :: string
  lo_paper :: string
  lo_orientation :: string
  lo_with_border :: bool
  lo_outer_margin_mm :: rat
  lo_inner_margin_mm :: rat
  lo_reading_direction :: string
  lo_quality :: int

record geometry =
  g_cols :: int
  g_rows :: int
  g_sheet_w :: int
  g_sheet_h :: int
  g_outer_px :: int
  g_inner_px :: int
  g_cell_w :: int
  g_cell_h :: int

definition layout_grid :: "string \<Rightarrow> int \<times> int" where
  "layout_grid layout =
     (if layout = ''2x2'' then (2, 2)
      else if layout = ''3x1'' then (1, 3)
      else if layout = ''3x2'' then (2, 3)
      else (2, 2))"

text \<open>
  The statements that compute the sheet and cell sizes are the same, line for line, in
  \<^verbatim>\<open>_generate_compact_thread\<close> and in \<^verbatim>\<open>_compose_sheets_preview\<close>. The lengths
  converted here are the two paper sizes and the margins of the GUI's sliders (0 to 30
  and 0 to 20 millimetres), for which \<open>mm_to_px\<close> returns.
\<close>

definition layout_geometry :: "layout_options \<Rightarrow> geometry" where
  "layout_geometry lo =
     (let (cols, rows) = layout_grid (lo_layout lo);
          dpi = DEFAULT_DPI;
          (w_mm, h_mm) = PAPER_SIZES_MM (lo_paper lo);
          (w_mm, h_mm) = (if lo_orientation lo = ''Landscape'' then (h_mm, w_mm) else (w_mm, h_mm));
          sheet_w = returned (mm_to_px w_mm dpi);
          sheet_h = returned (mm_to_px h_mm dpi);
          outer_px = returned (mm_to_px (lo_outer_margin_mm lo) dpi);
          inner_px = returned (mm_to_px (lo_inner_margin_mm lo) dpi);
          usable_w = sheet_w - outer_px * 2 - inner_px * (cols - 1);
          usable_h = sheet_h - outer_px * 2 - inner_px * (rows - 1);
          cell_w = max 50 (usable_w div cols);
          cell_h = max 50 (usable_h div rows)
      in \<lparr>g_cols = cols, g_rows = rows, g_sheet_w = sheet_w, g_sheet_h = sheet_h,
          g_outer_px = outer_px, g_inner_px = inner_px, g_cell_w = cell_w, g_cell_h = cell_h\<rparr>)"

text \<open>The cell's origin from the reading order; the same in both functions.\<close>

definition cell_origin :: "geometry \<Rightarrow> bool \<Rightarrow> int \<Rightarrow> int \<times> int" where
  "cell_origin g left_to_right cell_idx =
     (let (r, c) = (if left_to_right
                    then (cell_idx div g_cols g, cell_idx mod g_cols g)
                    else (cell_idx mod g_rows g, cell_idx div g_rows g));
          x = g_outer_px g + c * (g_cell_w g + g_inner_px g);
          y = g_outer_px g + r * (g_cell_h g + g_inner_px g)
      in (x, y))"

text \<open>
  Copy the page, shrink the copy into the cell, paste it centred; the same in both
  functions. The result is the sheet after the paste.
\<close>

definition paste_page :: "pil \<Rightarrow> geometry \<Rightarrow> image \<Rightarrow> int \<times> int \<Rightarrow> image \<Rightarrow> image" where
  "paste_page lib g page xy sheet_img =
     (let img = thumbnail lib page (g_cell_w g, g_cell_h g);
          paste_x = fst xy + (g_cell_w g - int (fst (im_size img))) div 2;
          paste_y = snd xy + (g_cell_h g - int (snd (im_size img))) div 2
      in paste lib sheet_img img (paste_x, paste_y))"

definition cell_box :: "geometry \<Rightarrow> int \<times> int \<Rightarrow> int \<times> int \<times> int \<times> int" where
  "cell_box g xy = (fst xy, snd xy, fst xy + g_cell_w g - 1, snd xy + g_cell_h g - 1)"

subsection \<open>\<^verbatim>\<open>_generate_compact_thread\<close>: the export path\<close>

text \<open>
  Inside the loop over the cells \<^verbatim>\<open>sheet_img\<close> and \<^verbatim>\<open>draw\<close> denote one and the
  same image object, so the sheet is passed as a value. The rotation comes after the
  loop over the cells.
\<close>

fun place_cells ::
  "pil \<Rightarrow> layout_options \<Rightarrow> geometry \<Rightarrow> manager \<Rightarrow> int \<Rightarrow> int list \<Rightarrow> image \<Rightarrow> rat list
   \<Rightarrow> image \<times> rat list"
where
  "place_cells lib lo g m s [] sheet_img u = (sheet_img, u)"
| "place_cells lib lo g m s (cell_idx # rest) sheet_img u =
     (let total_pages = int (length (pages m));
          cells_per_sheet = g_cols g * g_rows g;
          page_idx = s * cells_per_sheet + cell_idx
      in if page_idx \<ge> total_pages then (sheet_img, u)
         else (let xy = cell_origin g (lo_reading_direction lo = ''Left to Right'') cell_idx;
                   sheet_img = paste_page lib g (pages m ! nat page_idx) xy sheet_img;
                   sheet_img = (if lo_with_border lo
                                then draw_rectangle lib sheet_img (cell_box g xy)
                                else sheet_img);
                   overall_idx = page_idx;
                   u = set_progress (of_int (overall_idx + 1) / of_int total_pages) u
               in place_cells lib lo g m s rest sheet_img u))"

fun compose_sheets ::
  "pil \<Rightarrow> layout_options \<Rightarrow> geometry \<Rightarrow> manager \<Rightarrow> int list \<Rightarrow> image list \<Rightarrow> rat list
   \<Rightarrow> image list \<times> rat list"
where
  "compose_sheets lib lo g m [] sheet_images u = (sheet_images, u)"
| "compose_sheets lib lo g m (s # rest) sheet_images u =
     (let sheet_img = Image_new lib (nat (g_sheet_w g), nat (g_sheet_h g));
          (sheet_img, u) =
             place_cells lib lo g m s (py_range 0 (g_cols g * g_rows g)) sheet_img u;
          sheet_img = (if lo_orientation lo = ''Landscape''
                       then transpose_ROTATE_270 lib sheet_img
                       else sheet_img)
      in compose_sheets lib lo g m rest (sheet_images @ [sheet_img]) u)"

fun prepare_sheets ::
  "pil \<Rightarrow> int \<Rightarrow> int \<Rightarrow> int \<Rightarrow> image list \<Rightarrow> image list \<Rightarrow> rat list \<Rightarrow> image list \<times> rat list"
where
  "prepare_sheets lib quality n idx [] pil_pages_for_pdf u = (pil_pages_for_pdf, u)"
| "prepare_sheets lib quality n idx (sheet # rest) pil_pages_for_pdf u =
     (let pil_pages_for_pdf =
            pil_pages_for_pdf @ [convert lib (jpeg_reopen lib sheet quality) Mode_RGB];
          v = of_int (idx + 1) / of_int n;
          u = set_progress (v * (9 / 10)) u
      in prepare_sheets lib quality n (idx + 1) rest pil_pages_for_pdf u)"

text \<open>
  The number of sheets is \<^verbatim>\<open>math.ceil(total_pages / cells_per_sheet)\<close>. An exception
  in the body is caught by the function itself, which then sets the progress to 0; it is
  reported in the third component.
\<close>

definition sheet_count :: "geometry \<Rightarrow> manager \<Rightarrow> int" where
  "sheet_count g m =
     \<lceil>(of_int (int (length (pages m))) :: rat) / of_int (g_cols g * g_rows g)\<rceil>"

definition generate_compact_thread ::
  "pil \<Rightarrow> layout_options \<Rightarrow> string \<Rightarrow> manager \<Rightarrow> files \<Rightarrow> rat list
   \<Rightarrow> files \<times> rat list \<times> py_error option"
where
  "generate_compact_thread lib lo out_path m fs u =
     (let u = set_progress 0 u;
          g = layout_geometry lo;
          quality = lo_quality lo;
          sheets = sheet_count g m;
          (sheet_images, u) = compose_sheets lib lo g m (py_range 0 sheets) [] u;
          (pil_pages_for_pdf, u) =
             prepare_sheets lib quality (int (length sheet_images)) 0 sheet_images [] u
      in case pil_pages_for_pdf of
           [] \<Rightarrow> (fs, set_progress 0 u, Some NothingToSave)
         | first # rest \<Rightarrow> (save_pdf fs out_path first rest, set_progress 1 u, None))"

subsection \<open>\<^verbatim>\<open>_compose_sheets_preview\<close>: the preview path\<close>

text \<open>
  Here the rotation, the \<^verbatim>\<open>append\<close> and the \<^verbatim>\<open>return\<close> sit one level deeper than
  in the export path: the rotation and \<^verbatim>\<open>sheet_images.append(sheet_img)\<close> are inside
  the loop over the cells, and \<^verbatim>\<open>return sheet_images\<close> is inside the loop over the
  sheets. A rotation makes a new image object while \<^verbatim>\<open>draw\<close> keeps drawing on the
  first one, and an image stays in \<^verbatim>\<open>sheet_images\<close> while later cells are pasted on
  it. So the images live in a store; \<^verbatim>\<open>sheet_img\<close>, \<^verbatim>\<open>draw\<close> and the entries of
  \<^verbatim>\<open>sheet_images\<close> are addresses into it.
\<close>

type_synonym heap = "image list"

definition heap_alloc :: "heap \<Rightarrow> image \<Rightarrow> heap \<times> nat" where
  "heap_alloc h img = (h @ [img], length h)"

fun preview_cells ::
  "pil \<Rightarrow> layout_options \<Rightarrow> geometry \<Rightarrow> manager \<Rightarrow> int \<Rightarrow> nat \<Rightarrow> int list
   \<Rightarrow> heap \<times> nat \<times> nat list \<Rightarrow> heap \<times> nat \<times> nat list"
where
  "preview_cells lib lo g m s draw [] st = st"
| "preview_cells lib lo g m s draw (cell_idx # rest) (h, sheet_img, sheet_images) =
     (let total_pages = int (length (pages m));
          cells_per_sheet = g_cols g * g_rows g;
          page_idx = s * cells_per_sheet + cell_idx
      in if page_idx \<ge> total_pages then (h, sheet_img, sheet_images)
         else (let xy = cell_origin g (lo_reading_direction lo = ''Left to Right'') cell_idx;
                   h = h[sheet_img := paste_page lib g (pages m ! nat page_idx) xy (h ! sheet_img)];
                   h = (if lo_with_border lo
                        then h[draw := draw_rectangle lib (h ! draw) (cell_box g xy)]
                        else h);
                   (h, sheet_img) = (if lo_orientation lo = ''Landscape''
                                     then heap_alloc h (transpose_ROTATE_270 lib (h ! sheet_img))
                                     else (h, sheet_img));
                   sheet_images = sheet_images @ [sheet_img]
               in preview_cells lib lo g m s draw rest (h, sheet_img, sheet_images)))"

text \<open>
  The result is \<open>None\<close> when the loop over the sheets has nothing to run over (the Python
  function then returns \<^verbatim>\<open>None\<close>); otherwise it is the list as it stands at the end of
  the first round, every address read from the final store.
\<close>

definition compose_sheets_preview ::
  "pil \<Rightarrow> layout_options \<Rightarrow> manager \<Rightarrow> int \<Rightarrow> image list option"
where
  "compose_sheets_preview lib lo m count =
     (let g = layout_geometry lo;
          sheets = sheet_count g m
      in case py_range 0 (min sheets count) of
           [] \<Rightarrow> None
         | s # _ \<Rightarrow>
             (let (h, sheet_img) =
                    heap_alloc [] (Image_new lib (nat (g_sheet_w g), nat (g_sheet_h g)));
                  draw = sheet_img;
                  (h, sheet_img, sheet_images) =
                    preview_cells lib lo g m s draw (py_range 0 (g_cols g * g_rows g))
                      (h, sheet_img, [])
              in Some (map (\<lambda>a. h ! a) sheet_images)))"

section \<open>Notions used in the statements\<close>

text \<open>The three parallel lists of a document have one length.\<close>

definition lengths_agree :: "manager \<Rightarrow> bool" where
  "lengths_agree m =
     (length (original_pages m) = length (pages m) \<and> length (pages m) = length (selected m))"

text \<open>An index that \<^verbatim>\<open>xs[i]\<close> accepts for a list of length \<open>n\<close>, and the element it reads.\<close>

definition valid_index :: "nat \<Rightarrow> int \<Rightarrow> bool" where
  "valid_index n i = (- int n \<le> i \<and> i < int n)"

definition py_at :: "'a list \<Rightarrow> int \<Rightarrow> 'a" where
  "py_at xs i = xs ! nat (if i < 0 then int (length xs) + i else i)"

text \<open>
  The qualifying pages of an export: the processed pages at the requested indices whose
  selected flag is set, in the order of the request.
\<close>

definition qualifying_pages :: "manager \<Rightarrow> int list \<Rightarrow> image list" where
  "qualifying_pages m page_indices =
     map (py_at (pages m)) (filter (py_at (selected m)) page_indices)"

text \<open>
  The effect of calling a progress callback with \<open>(i+1)/tot\<close>, \<open>(i+2)/tot\<close>, ...,
  \<open>(i+n)/tot\<close>, in this order.
\<close>

fun notify_from :: "'u callback \<Rightarrow> int \<Rightarrow> int \<Rightarrow> nat \<Rightarrow> 'u \<Rightarrow> 'u" where
  "notify_from cb tot i 0 u = u"
| "notify_from cb tot i (Suc n) u =
     notify_from cb tot (i + 1) n (notify cb (of_int (i + 1) / of_int tot) u)"

text \<open>The fractions \<open>1/n, 2/n, ..., k/n\<close>.\<close>

definition fractions :: "nat \<Rightarrow> nat \<Rightarrow> rat list" where
  "fractions k n = map (\<lambda>j. of_nat (j + 1) / of_nat n) [0..<k]"

text \<open>
  A sequence of edits of a document, as a caller may issue them, and the state they
  leave. An edit that raises leaves the state its method had reached.
\<close>

datatype edit =
    Insert_blank int
  | Insert_text int string
  | Move int int
  | Revert_current int
  | Revert_all

fun apply_edit :: "pil \<Rightarrow> edit \<Rightarrow> manager \<Rightarrow> manager" where
  "apply_edit lib (Insert_blank index) m = insert_blank_page lib index m"
| "apply_edit lib (Insert_text index text) m = insert_text_page lib index text m"
| "apply_edit lib (Move index direction) m = fst (move_page index direction m)"
| "apply_edit lib (Revert_current index) m = fst (revert_current_page index m)"
| "apply_edit lib Revert_all m = fst (revert_all m)"

fun apply_edit_V4 :: "pil \<Rightarrow> edit \<Rightarrow> manager \<Rightarrow> manager" where
  "apply_edit_V4 lib (Insert_blank index) m = fst (insert_blank_page_V4 lib index m)"
| "apply_edit_V4 lib (Insert_text index text) m = fst (insert_text_page_V4 lib index text m)"
| "apply_edit_V4 lib (Move index direction) m = fst (move_page index direction m)"
| "apply_edit_V4 lib (Revert_current index) m = fst (revert_current_page index m)"
| "apply_edit_V4 lib Revert_all m = fst (revert_all m)"

subsection \<open>Examples to run the model on\<close>

text \<open>
  A stand-in for the imaging library that keeps modes and sizes right and leaves the
  pixel data alone, except for the codec, which drops the three low bits of every
  channel. It serves to evaluate the model on concrete documents.
\<close>

definition example_pil :: pil where
  "example_pil =
     \<lparr>Image_new = (\<lambda>sz. \<lparr>im_mode = Mode_RGB, im_size = sz, im_data = []\<rparr>),
      convert = (\<lambda>img md. img\<lparr>im_mode := md\<rparr>),
      Contrast_enhance = (\<lambda>img f. img),
      Brightness_enhance = (\<lambda>img f. img),
      Sharpness_enhance = (\<lambda>img f. img),
      draw_text = (\<lambda>img t. img),
      thumbnail = (\<lambda>img sz. img),
      paste = (\<lambda>sheet img xy. sheet),
      draw_rectangle = (\<lambda>img box. img),
      transpose_ROTATE_270 = (\<lambda>img. img\<lparr>im_size := (snd (im_size img), fst (im_size img))\<rparr>),
      jpeg_reopen = (\<lambda>img q. img\<lparr>im_data := map (\<lambda>v. v div 8 * 8) (im_data img)\<rparr>)\<rparr>"

text \<open>A one-pixel page of one grey level, and a document of \<open>n\<close> such pages.\<close>

definition example_page :: "nat \<Rightarrow> image" where
  "example_page k =
     \<lparr>im_mode = Mode_RGB, im_size = (1, 1), im_data = [of_nat k, of_nat k, of_nat k]\<rparr>"

definition example_manager :: "nat \<Rightarrow> manager" where
  "example_manager n =
     \<lparr>original_pages = map example_page [0..<n],
      pages = map (\<lambda>k. ImageOps_invert (example_page k)) [0..<n],
      selected = replicate n True\<rparr>"

text \<open>What the rasterizer yields for a file of two one-pixel pages.\<close>

definition example_doc :: "pixmap list" where
  "example_doc =
     [\<lparr>pix_width = 1, pix_height = 1, pix_samples = [10, 20, 30]\<rparr>,
      \<lparr>pix_width = 1, pix_height = 1, pix_samples = [0, 128, 255]\<rparr>]"

text \<open>The layout options of the GUI at start, with the orientation set to landscape.\<close>

definition landscape_2x2 :: layout_options where
  "landscape_2x2 =
     \<lparr>lo_layout = ''2x2'', lo_paper = ''A4'', lo_orientation = ''Landscape'',
      lo_with_border = False, lo_outer_margin_mm = 5, lo_inner_margin_mm = 2,
      lo_reading_direction = ''Left to Right'', lo_quality = 85\<rparr>"

section \<open>Verified properties\<close>

subsection \<open>Auxiliary facts about lists of indices\<close>

lemma upto_all: "[0..int n - 1] = map int [0..<n]"
  by (induction n) (auto simp: upto_rec2)

subsection \<open>Binary floats\<close>

lemma pow2_powi: "pow2 e = 2 powi e"
  by (simp add: pow2_def power_int_def inverse_eq_divide power_one_over)

lemma pow2_pos: "0 < pow2 e"
  by (simp add: pow2_powi)

lemma pow2_add: "pow2 (a + b) = pow2 a * pow2 b"
  by (simp add: pow2_powi power_int_add)

lemma pow2_diff: "pow2 (a - b) = pow2 a / pow2 b"
  by (simp add: pow2_powi power_int_diff)

lemma pow2_less: "a < b \<Longrightarrow> pow2 a < pow2 b"
  by (simp add: pow2_powi power_int_strict_increasing)

lemma pow2_le_iff: "pow2 a \<le> pow2 b \<longleftrightarrow> a \<le> b"
proof
  assume "pow2 a \<le> pow2 b"
  show "a \<le> b"
  proof (rule ccontr)
    assume "\<not> a \<le> b"
    then have "pow2 b < pow2 a" by (simp add: pow2_less)
    with \<open>pow2 a \<le> pow2 b\<close> show False by simp
  qed
next
  assume "a \<le> b"
  then show "pow2 a \<le> pow2 b" by (simp add: pow2_powi power_int_increasing)
qed

lemma pow2_nat: "pow2 (int k) = 2 ^ k"
  by (simp add: pow2_def)

lemma bitlen_lower: "0 < p \<Longrightarrow> pow2 (bitlen p - 1) \<le> of_int p"
proof -
  assume p: "0 < p"
  then have "1 \<le> bitlen p" by (auto simp: bitlen_alt_def)
  then have "pow2 (bitlen p - 1) = of_int (2 ^ nat (bitlen p - 1))"
    by (simp add: pow2_def)
  also have "\<dots> \<le> of_int p"
    using bitlen_bounds [OF p] by (simp only: of_int_le_iff)
  finally show ?thesis .
qed

lemma bitlen_upper: "0 < q \<Longrightarrow> of_int q < pow2 (bitlen q)"
proof -
  assume q: "0 < q"
  have "0 \<le> bitlen q" by (rule bitlen_nonneg)
  then have "pow2 (bitlen q) = of_int (2 ^ nat (bitlen q))"
    by (simp add: pow2_def)
  moreover have "q < 2 ^ nat (bitlen q)" using bitlen_bounds [OF q] by simp
  then have "(of_int q :: rat) < of_int (2 ^ nat (bitlen q))"
    by (simp only: of_int_less_iff)
  ultimately show ?thesis by simp
qed

lemma ilog2_bounds:
  assumes "0 < x"
  shows "pow2 (ilog2 x) \<le> x \<and> x < pow2 (ilog2 x + 1)"
proof -
  obtain p q where pq: "quotient_of x = (p, q)" by (cases "quotient_of x")
  have q: "0 < q" using pq by (rule quotient_of_denom_pos)
  have x: "x = of_int p / of_int q" using pq by (rule quotient_of_div)
  have p: "0 < p" using assms q unfolding x by (simp add: zero_less_divide_iff)
  define d where "d = bitlen p - bitlen q"
  have lo: "pow2 (d - 1) \<le> x"
  proof -
    have "pow2 (d - 1) = pow2 (bitlen p - 1) / pow2 (bitlen q)"
      by (simp add: d_def pow2_diff [symmetric] algebra_simps)
    also have "\<dots> \<le> of_int p / pow2 (bitlen q)"
      using bitlen_lower [OF p] pow2_pos [of "bitlen q"] by (simp add: divide_right_mono)
    also have "\<dots> \<le> of_int p / of_int q"
      using bitlen_upper [OF q] p q by (simp add: divide_left_mono)
    finally show ?thesis unfolding x .
  qed
  have hi: "x < pow2 (d + 1)"
  proof -
    have "of_int p / of_int q < pow2 (bitlen p) / of_int q"
      using bitlen_upper [OF p] q by (simp add: divide_strict_right_mono)
    also have "\<dots> \<le> pow2 (bitlen p) / pow2 (bitlen q - 1)"
      using bitlen_lower [OF q] q pow2_pos [of "bitlen p"] pow2_pos [of "bitlen q - 1"]
      by (simp add: divide_left_mono)
    also have "\<dots> = pow2 (d + 1)"
      by (simp add: d_def pow2_diff [symmetric] algebra_simps)
    finally show ?thesis unfolding x .
  qed
  show ?thesis
  proof (cases "pow2 d \<le> x")
    case True
    then show ?thesis using hi by (simp add: ilog2_def pq d_def [symmetric])
  next
    case False
    then show ?thesis using lo by (simp add: ilog2_def pq d_def [symmetric])
  qed
qed

lemma ilog2_unique:
  assumes "0 < x" and "pow2 E \<le> x" and "x < pow2 (E + 1)"
  shows "ilog2 x = E"
proof -
  from ilog2_bounds [OF assms(1)] have "pow2 (ilog2 x) < pow2 (E + 1)" "pow2 E < pow2 (ilog2 x + 1)"
    using assms(2,3) by linarith+
  then have "ilog2 x < E + 1" "E < ilog2 x + 1"
    using pow2_le_iff [of "E + 1" "ilog2 x"] pow2_le_iff [of "ilog2 x + 1" E] by linarith+
  then show ?thesis by simp
qed

lemma round_half_even_le: "y \<le> of_int n \<Longrightarrow> round_half_even y \<le> n"
proof -
  assume yn: "y \<le> of_int n"
  then have f: "\<lfloor>y\<rfloor> \<le> n" by (simp add: floor_le_iff)
  show ?thesis
  proof (cases "y = of_int \<lfloor>y\<rfloor>")
    case True
    then have "y - of_int \<lfloor>y\<rfloor> = 0" by simp
    then show ?thesis using f by (simp add: round_half_even_def Let_def)
  next
    case False
    then have "of_int \<lfloor>y\<rfloor> < y" using of_int_floor_le [of y] by linarith
    then have "of_int \<lfloor>y\<rfloor> < (of_int n :: rat)" using yn by linarith
    then have "\<lfloor>y\<rfloor> < n" by (simp only: of_int_less_iff)
    then show ?thesis by (simp add: round_half_even_def Let_def)
  qed
qed

lemma round_half_even_nonneg: "0 \<le> y \<Longrightarrow> 0 \<le> round_half_even y"
proof -
  assume "0 \<le> y"
  then have "0 \<le> \<lfloor>y\<rfloor>" by simp
  then show ?thesis by (simp add: round_half_even_def Let_def)
qed

lemma round_half_even_of_int: "round_half_even (of_int n) = n"
  by (simp add: round_half_even_def)

lemma fl_bounded:
  assumes "0 \<le> x" and "x \<le> 2 ^ k" and "k \<le> 1023"
  shows "\<exists>r. fl x = Some r \<and> 0 \<le> r \<and> r \<le> 2 ^ k"
proof (cases "x = 0")
  case True
  then show ?thesis by (simp add: fl_def)
next
  case False
  then have x: "0 < x" using assms(1) by simp
  define e where "e = max (ilog2 x - 52) (- 1074)"
  define m where "m = round_half_even (x / pow2 e)"
  have "pow2 (ilog2 x) \<le> pow2 (int k)"
    using ilog2_bounds [OF x] assms(2) by (simp add: pow2_nat)
  then have "ilog2 x \<le> int k" by (simp only: pow2_le_iff)
  then have ek: "e \<le> int k" by (simp add: e_def)
  have pk: "pow2 (int k) = pow2 (int k - e) * pow2 e"
    using pow2_add [of "int k - e" e] by simp
  have n: "pow2 (int k - e) = of_int (2 ^ nat (int k - e))"
    using ek by (simp add: pow2_def)
  have "x / pow2 e \<le> pow2 (int k) / pow2 e"
    using assms(2) pow2_pos [of e] by (simp add: divide_right_mono pow2_nat)
  also have "\<dots> = pow2 (int k - e)" by (simp add: pow2_diff)
  finally have "x / pow2 e \<le> of_int (2 ^ nat (int k - e))" unfolding n .
  then have m_le: "m \<le> 2 ^ nat (int k - e)" unfolding m_def by (rule round_half_even_le)
  have "0 \<le> x / pow2 e" using x pow2_pos [of e] by simp
  then have m0: "0 \<le> m" unfolding m_def by (rule round_half_even_nonneg)
  have "of_int m * pow2 e \<le> of_int (2 ^ nat (int k - e)) * pow2 e"
    using m_le pow2_pos [of e] by (simp add: mult_right_mono)
  also have "\<dots> = pow2 (int k)" unfolding n [symmetric] pk ..
  finally have r_le: "of_int m * pow2 e \<le> 2 ^ k" by (simp add: pow2_nat)
  have r0: "0 \<le> of_int m * pow2 e" using m0 pow2_pos [of e] by simp
  have "pow2 (int k) < pow2 1024" using assms(3) by (intro pow2_less) simp
  then have no: "\<not> pow2 1024 \<le> of_int m * pow2 e"
    using r_le unfolding pow2_nat by linarith
  have "fl x = Some (of_int m * pow2 e)"
    using x no by (simp add: fl_def Let_def e_def [symmetric] m_def [symmetric])
  then show ?thesis using r0 r_le by simp
qed

text \<open>A float of a known binary exponent.\<close>

lemma fl_normal:
  assumes "0 < x" and "pow2 E \<le> x" and "x < pow2 (E + 1)" and "- 1022 \<le> E" and "E \<le> 1022"
  shows "fl x = Some (of_int (round_half_even (x / pow2 (E - 52))) * pow2 (E - 52))"
proof -
  have i: "ilog2 x = E" using assms(1-3) by (rule ilog2_unique)
  have e: "max (ilog2 x - 52) (- 1074) = E - 52" using assms(4) by (simp add: i)
  have "pow2 (E + 1) \<le> pow2 (int 1023)" using assms(5) by (simp only: pow2_le_iff)
  then have "x \<le> pow2 (int 1023)" using assms(3) by linarith
  then have "x \<le> 2 ^ 1023" by (simp only: pow2_nat)
  then obtain r where r: "fl x = Some r" using fl_bounded [of x 1023] assms(1) by auto
  then show ?thesis
    using assms(1) by (simp add: fl_def Let_def e split: if_splits)
qed

lemma round_half_even_nearest:
  assumes "of_int n - 1 / 2 < y" and "y < of_int n + 1 / 2"
  shows "round_half_even y = n"
proof (cases "of_int n \<le> y")
  case True
  then have f: "\<lfloor>y\<rfloor> = n" using assms(2) by (intro floor_unique) simp_all
  show ?thesis using assms(2) by (simp add: round_half_even_def f)
next
  case False
  then have f: "\<lfloor>y\<rfloor> = n - 1" using assms(1) by (intro floor_unique) simp_all
  show ?thesis using assms(1) by (simp add: round_half_even_def f)
qed

lemma fl_nearest:
  assumes "0 < x" and "pow2 E \<le> x" and "x < pow2 (E + 1)" and "- 1022 \<le> E" and "E \<le> 1022"
    and "of_int m - 1 / 2 < x / pow2 (E - 52)" and "x / pow2 (E - 52) < of_int m + 1 / 2"
  shows "fl x = Some (of_int m * pow2 (E - 52))"
  using fl_normal [OF assms(1-5)] round_half_even_nearest [OF assms(6,7)] by simp

lemma fl_of_int:
  assumes "0 \<le> n" and "n < 2 ^ 53"
  shows "fl (of_int n) = Some (of_int n)"
proof (cases "n = 0")
  case True
  then show ?thesis by (simp add: fl_def)
next
  case False
  define x :: rat where "x = of_int n"
  define E where "E = ilog2 x"
  have n1: "1 \<le> n" using assms(1) False by simp
  then have x1: "1 \<le> x" by (simp add: x_def)
  then have x0: "0 < x" by simp
  have b: "pow2 E \<le> x" "x < pow2 (E + 1)" using ilog2_bounds [OF x0] by (simp_all add: E_def)
  have "x < pow2 53" using assms(2) by (simp add: x_def pow2_def of_int_less_numeral_power_cancel_iff)
  then have "pow2 E < pow2 53" using b(1) by linarith
  then have E52: "E \<le> 52" using pow2_le_iff [of 53 E] by linarith
  have "pow2 0 < pow2 (E + 1)" using x1 b(2) by (simp add: pow2_def)
  then have E0: "0 \<le> E" using pow2_le_iff [of "E + 1" 0] by linarith
  have s: "pow2 (52 - E) = of_int (2 ^ nat (52 - E))" using E52 by (simp add: pow2_def)
  have i: "pow2 (52 - E) * pow2 (E - 52) = 1"
    using pow2_add [of "52 - E" "E - 52"] by (simp add: pow2_def)
  have "x / pow2 (E - 52) = x * pow2 (52 - E)"
    using i pow2_pos [of "E - 52"] by (simp add: field_simps)
  also have "\<dots> = of_int (n * 2 ^ nat (52 - E))" by (simp add: s x_def)
  finally have "round_half_even (x / pow2 (E - 52)) = n * 2 ^ nat (52 - E)"
    by (simp only: round_half_even_of_int)
  then have "fl x = Some (of_int (n * 2 ^ nat (52 - E)) * pow2 (E - 52))"
    using fl_normal [OF x0 b] E0 E52 by simp
  also have "of_int (n * 2 ^ nat (52 - E)) * pow2 (E - 52) = x * (pow2 (52 - E) * pow2 (E - 52))"
    by (simp add: s x_def)
  finally show ?thesis by (simp add: i x_def)
qed

lemma py_int_floor: "of_int n \<le> x \<Longrightarrow> x < of_int n + 1 \<Longrightarrow> 0 \<le> n \<Longrightarrow> py_int x = n"
proof -
  assume a: "of_int n \<le> x" "x < of_int n + 1" "0 \<le> n"
  then have "\<lfloor>x\<rfloor> = n" by (intro floor_unique)
  moreover have "0 \<le> x" using a by (simp add: order_trans [of 0 "of_int n" x])
  ultimately show ?thesis by (simp add: py_int_def)
qed

lemma mm_to_px_at:
  assumes "fl (of_int dpi) = Some d" and "fl (mm * d) = Some p" and "fl (p / float_25_4) = Some q"
    and "of_int n \<le> q" and "q < of_int n + 1" and "0 \<le> n"
  shows "mm_to_px mm dpi = Inr n"
  using py_int_floor [OF assms(4-6)] by (simp add: mm_to_px_def float_quotient_def assms(1-3))

lemma fl_200: "fl 200 = Some 200"
  using fl_of_int [of 200] by simp

lemma fl_59400: "fl 59400 = Some 59400"
  using fl_of_int [of 59400] by simp

lemma fl_42000: "fl 42000 = Some 42000"
  using fl_of_int [of 42000] by simp

lemma fl_1000: "fl 1000 = Some 1000"
  using fl_of_int [of 1000] by simp

lemma fl_400: "fl 400 = Some 400"
  using fl_of_int [of 400] by simp

lemma fl_q297: "fl (59400 / float_25_4) = Some (5142597692117670 / 2 ^ 41)"
  using fl_nearest [of "59400 / float_25_4" 11 5142597692117670]
  by (simp add: pow2_def float_25_4_def)

lemma fl_q210: "fl (42000 / float_25_4) = Some (7272360372691654 / 2 ^ 42)"
  using fl_nearest [of "42000 / float_25_4" 10 7272360372691654]
  by (simp add: pow2_def float_25_4_def)

lemma fl_q5: "fl (1000 / float_25_4) = Some (5540845998241260 / 2 ^ 47)"
  using fl_nearest [of "1000 / float_25_4" 5 5540845998241260]
  by (simp add: pow2_def float_25_4_def)

lemma fl_q2: "fl (400 / float_25_4) = Some (8865353597186016 / 2 ^ 49)"
  using fl_nearest [of "400 / float_25_4" 3 8865353597186016]
  by (simp add: pow2_def float_25_4_def)

lemma mm_to_px_297: "mm_to_px 297 200 = Inr 2338"
  by (rule mm_to_px_at [where d = 200 and p = 59400 and q = "5142597692117670 / 2 ^ 41"])
     (simp_all add: fl_200 fl_59400 fl_q297)

lemma mm_to_px_210: "mm_to_px 210 200 = Inr 1653"
  by (rule mm_to_px_at [where d = 200 and p = 42000 and q = "7272360372691654 / 2 ^ 42"])
     (simp_all add: fl_200 fl_42000 fl_q210)

lemma mm_to_px_5: "mm_to_px 5 200 = Inr 39"
  by (rule mm_to_px_at [where d = 200 and p = 1000 and q = "5540845998241260 / 2 ^ 47"])
     (simp_all add: fl_200 fl_1000 fl_q5)

lemma mm_to_px_2: "mm_to_px 2 200 = Inr 15"
  by (rule mm_to_px_at [where d = 200 and p = 400 and q = "8865353597186016 / 2 ^ 49"])
     (simp_all add: fl_200 fl_400 fl_q2)

subsection \<open>Millimetres to pixels\<close>

lemma round_half_even_ge: "of_int n \<le> y \<Longrightarrow> n \<le> round_half_even y"
proof -
  assume "of_int n \<le> y"
  then have "n \<le> \<lfloor>y\<rfloor>" by (simp add: le_floor_iff)
  then show ?thesis by (simp add: round_half_even_def Let_def)
qed

lemma fl_overflow:
  assumes "pow2 1024 \<le> x"
  shows "fl x = None"
proof -
  have x0: "0 < x" using assms pow2_pos [of 1024] by linarith
  define i where "i = ilog2 x"
  have b: "pow2 i \<le> x" "x < pow2 (i + 1)" using ilog2_bounds [OF x0] by (simp_all add: i_def)
  have "pow2 1024 < pow2 (i + 1)" using assms b(2) by linarith
  then have i: "1024 \<le> i" using pow2_le_iff [of "i + 1" 1024] by linarith
  then have e: "max (i - 52) (- 1074) = i - 52" by simp
  have "pow2 52 = pow2 i / pow2 (i - 52)" using pow2_diff [of i "i - 52"] by simp
  also have "\<dots> \<le> x / pow2 (i - 52)"
    using b(1) pow2_pos [of "i - 52"] by (simp add: divide_right_mono)
  finally have "of_int (2 ^ 52) \<le> x / pow2 (i - 52)" by (simp add: pow2_def)
  then have m: "2 ^ 52 \<le> round_half_even (x / pow2 (i - 52))" by (rule round_half_even_ge)
  have "pow2 1024 \<le> pow2 i" using i by (simp only: pow2_le_iff)
  also have "pow2 i = of_int (2 ^ 52) * pow2 (i - 52)"
    using pow2_add [of 52 "i - 52"] by (simp add: pow2_def)
  also have "\<dots> \<le> of_int (round_half_even (x / pow2 (i - 52))) * pow2 (i - 52)"
  proof (rule mult_right_mono)
    show "(of_int (2 ^ 52) :: rat) \<le> of_int (round_half_even (x / pow2 (i - 52)))"
      using m by (simp only: of_int_le_iff)
    show "0 \<le> pow2 (i - 52)" using pow2_pos [of "i - 52"] by (rule less_imp_le)
  qed
  finally show ?thesis
    using x0 by (simp add: fl_def Let_def i_def [symmetric] e)
qed

lemma round_half_even_frac:
  "round_half_even y =
     (if frac y < 1 / 2 \<or> frac y = 1 / 2 \<and> even \<lfloor>y\<rfloor> then \<lfloor>y\<rfloor> else \<lfloor>y\<rfloor> + 1)"
  by (auto simp: round_half_even_def frac_def Let_def)

lemma float_25_4_ge_1: "1 \<le> float_25_4"
  by (simp add: float_25_4_def)

lemma float_quotient_returns:
  assumes "0 \<le> mm" and "mm \<le> 2 ^ 1000" and "0 \<le> dpi" and "dpi \<le> 2 ^ 20"
  shows "\<exists>q. float_quotient mm dpi = Some q \<and> 0 \<le> q"
proof -
  have "(of_int dpi :: rat) \<le> of_int (2 ^ 20)" using assms(4) by (simp only: of_int_le_iff)
  then have "(of_int dpi :: rat) \<le> 2 ^ 20" by simp
  moreover have "(0 :: rat) \<le> of_int dpi" using assms(3) by simp
  ultimately obtain d where d: "fl (of_int dpi) = Some d" "0 \<le> d" "d \<le> 2 ^ 20"
    using fl_bounded [of "of_int dpi" 20] by auto
  have "mm * d \<le> 2 ^ 1000 * 2 ^ 20" using assms(1,2) d(2,3) by (intro mult_mono) simp_all
  also have "(2 :: rat) ^ 1000 * 2 ^ 20 = 2 ^ 1020" by (simp only: power_add [symmetric]) simp
  finally have "mm * d \<le> 2 ^ 1020" .
  moreover have "0 \<le> mm * d" using assms(1) d(2) by simp
  ultimately obtain p where p: "fl (mm * d) = Some p" "0 \<le> p" "p \<le> 2 ^ 1020"
    using fl_bounded [of "mm * d" 1020] by auto
  have "p / float_25_4 \<le> p / 1"
    using p(2) float_25_4_ge_1 by (intro divide_left_mono) simp_all
  then have "p / float_25_4 \<le> 2 ^ 1020" using p(3) by simp
  moreover have "0 \<le> p / float_25_4" using p(2) float_25_4_ge_1 by simp
  ultimately obtain q where q: "fl (p / float_25_4) = Some q" "0 \<le> q"
    using fl_bounded [of "p / float_25_4" 1020] by auto
  show ?thesis using d(1) p(1) q by (simp add: float_quotient_def)
qed

lemma float_quotient_297: "float_quotient 297 200 = Some (5142597692117670 / 2 ^ 41)"
  by (simp add: float_quotient_def fl_200 fl_59400 fl_q297)

lemma float_quotient_5: "float_quotient 5 200 = Some (5540845998241260 / 2 ^ 47)"
  by (simp add: float_quotient_def fl_200 fl_1000 fl_q5)

lemma floor_q297: "\<lfloor>5142597692117670 / 2 ^ 41 :: rat\<rfloor> = 2338"
  by (rule floor_unique) simp_all

lemma floor_q5: "\<lfloor>5540845998241260 / 2 ^ 47 :: rat\<rfloor> = 39"
  by (rule floor_unique) simp_all

lemma round_q297: "round_half_even (5142597692117670 / 2 ^ 41) = 2339"
  by (rule round_half_even_nearest) simp_all

lemma round_q5: "round_half_even (5540845998241260 / 2 ^ 47) = 39"
  by (rule round_half_even_nearest) simp_all

text \<open>
  C6 states that \<open>mm_to_px\<close> returns \<^verbatim>\<open>round(mm * dpi / 25.4)\<close>, the nearest integer,
  also when the fractional part is at least one half. The function truncates instead. The
  height of an A4 sheet is 297 mm; at the fixed 200 dpi the float \<^verbatim>\<open>297 * 200 / 25.4\<close> is
  \<open>5142597692117670 / 2\<^sup>4\<^sup>1 = 2338.58..\<close>, which rounds to 2339 (and so does the exact
  quotient \<open>59400 / 25.4\<close>), and \<open>mm_to_px\<close> returns 2338.
\<close>

theorem mm_to_px_not_nearest:
  "mm_to_px 297 DEFAULT_DPI = Inr 2338
   \<and> float_quotient 297 DEFAULT_DPI = Some (5142597692117670 / 2 ^ 41)
   \<and> round_half_even (5142597692117670 / 2 ^ 41) = 2339
   \<and> round (297 * of_int DEFAULT_DPI / (254 / 10) :: rat) = 2339"
proof -
  have a: "mm_to_px 297 DEFAULT_DPI = Inr 2338"
    unfolding DEFAULT_DPI_def by (rule mm_to_px_297)
  have b: "float_quotient 297 DEFAULT_DPI = Some (5142597692117670 / 2 ^ 41)"
    unfolding DEFAULT_DPI_def by (rule float_quotient_297)
  have c: "round (297 * of_int DEFAULT_DPI / (254 / 10) :: rat) = 2339"
    unfolding round_def by (rule floor_unique) (simp_all add: DEFAULT_DPI_def)
  show ?thesis using a b round_q297 c by blast
qed

text \<open>
  C6 as amended: for a length of 0 to \<open>2\<^sup>1\<^sup>0\<^sup>0\<^sup>0\<close> mm and the fixed resolution (any
  resolution from 0 to \<open>2\<^sup>2\<^sup>0\<close>), the float \<open>q\<close> that \<^verbatim>\<open>mm * dpi / 25.4\<close> evaluates to is
  finite and not negative, and \<open>mm_to_px\<close> returns its integer part \<open>\<lfloor>q\<rfloor>\<close>: the greatest
  integer not above \<open>q\<close>. That is \<^verbatim>\<open>round(q)\<close>, which rounds a tie to the even integer,
  exactly when the fractional part of \<open>q\<close> is below one half, or is one half with \<open>\<lfloor>q\<rfloor>\<close>
  even; in every other case it is one less than \<^verbatim>\<open>round(q)\<close>.
\<close>

theorem mm_to_px_truncates:
  assumes "0 \<le> mm" and "mm \<le> 2 ^ 1000" and "0 \<le> dpi" and "dpi \<le> 2 ^ 20"
  shows "\<exists>q. float_quotient mm dpi = Some q \<and> 0 \<le> q
           \<and> mm_to_px mm dpi = Inr \<lfloor>q\<rfloor>
           \<and> of_int \<lfloor>q\<rfloor> \<le> q \<and> q < of_int \<lfloor>q\<rfloor> + 1
           \<and> (mm_to_px mm dpi = Inr (round_half_even q)
                \<longleftrightarrow> frac q < 1 / 2 \<or> frac q = 1 / 2 \<and> even \<lfloor>q\<rfloor>)
           \<and> (mm_to_px mm dpi \<noteq> Inr (round_half_even q)
                \<longrightarrow> mm_to_px mm dpi = Inr (round_half_even q - 1))"
proof -
  obtain q where q: "float_quotient mm dpi = Some q" "0 \<le> q"
    using float_quotient_returns [OF assms] by blast
  have m: "mm_to_px mm dpi = Inr \<lfloor>q\<rfloor>" using q by (simp add: mm_to_px_def py_int_def)
  have a: "of_int \<lfloor>q\<rfloor> \<le> q" "q < of_int \<lfloor>q\<rfloor> + 1" by linarith+
  have b: "mm_to_px mm dpi = Inr (round_half_even q)
           \<longleftrightarrow> frac q < 1 / 2 \<or> frac q = 1 / 2 \<and> even \<lfloor>q\<rfloor>"
    unfolding m by (simp add: round_half_even_frac)
  have c: "mm_to_px mm dpi \<noteq> Inr (round_half_even q)
           \<longrightarrow> mm_to_px mm dpi = Inr (round_half_even q - 1)"
    unfolding m by (simp add: round_half_even_frac)
  show ?thesis using q m a b c by blast
qed

theorem mm_to_px_truncates_witness:
  "(0 :: rat) \<le> 5 \<and> (5 :: rat) \<le> 2 ^ 1000 \<and> 0 \<le> DEFAULT_DPI \<and> DEFAULT_DPI \<le> 2 ^ 20
   \<and> float_quotient 5 DEFAULT_DPI = Some (5540845998241260 / 2 ^ 47)
   \<and> frac (5540845998241260 / 2 ^ 47 :: rat) < 1 / 2
   \<and> mm_to_px 5 DEFAULT_DPI = Inr (round_half_even (5540845998241260 / 2 ^ 47))
   \<and> mm_to_px 5 DEFAULT_DPI = Inr 39"
proof -
  have h: "(0 :: rat) \<le> 5" "(5 :: rat) \<le> 2 ^ 1000" "0 \<le> DEFAULT_DPI" "DEFAULT_DPI \<le> 2 ^ 20"
    by (simp_all add: DEFAULT_DPI_def)
  have f: "float_quotient 5 DEFAULT_DPI = Some (5540845998241260 / 2 ^ 47)"
    unfolding DEFAULT_DPI_def by (rule float_quotient_5)
  have r: "frac (5540845998241260 / 2 ^ 47 :: rat) < 1 / 2"
    unfolding frac_def floor_q5 by simp
  obtain q where q: "float_quotient 5 DEFAULT_DPI = Some q"
    and t: "mm_to_px 5 DEFAULT_DPI = Inr \<lfloor>q\<rfloor>"
    and u: "mm_to_px 5 DEFAULT_DPI = Inr (round_half_even q)
            \<longleftrightarrow> frac q < 1 / 2 \<or> frac q = 1 / 2 \<and> even \<lfloor>q\<rfloor>"
    using mm_to_px_truncates [OF h] by blast
  have e: "q = 5540845998241260 / 2 ^ 47" using q unfolding f by (simp only: option.inject)
  have "mm_to_px 5 DEFAULT_DPI = Inr 39" using t unfolding e floor_q5 .
  then show ?thesis using h f r u unfolding e by blast
qed

text \<open>
  The bound on the length is there because a product beyond the range of the floats is an
  infinity, on which \<^verbatim>\<open>int\<close> raises.
\<close>

lemma mm_to_px_overflow: "mm_to_px (2 ^ 1020) DEFAULT_DPI = Inl OverflowError"
proof -
  have "pow2 1024 \<le> 2 ^ 1020 * 200" by (simp add: pow2_def)
  then have "fl (2 ^ 1020 * 200) = None" by (rule fl_overflow)
  then show ?thesis
    by (simp only: mm_to_px_def float_quotient_def DEFAULT_DPI_def of_int_numeral fl_200
        option.case sum.case)
qed

subsection \<open>The three lists keep one length\<close>

lemma length_py_insert: "length (py_insert xs i v) = Suc (length xs)"
  by (simp add: py_insert_def Let_def)

lemma py_setitem_length: "py_setitem xs i v = Inr ys \<Longrightarrow> length ys = length xs"
  by (auto simp: py_setitem_def split: option.splits)

lemma py_swap_length: "py_swap xs i j = Inr ys \<Longrightarrow> length ys = length xs"
  by (auto simp: py_swap_def split: sum.splits dest!: py_setitem_length)

lemma insert_blank_page_lengths: "lengths_agree m \<Longrightarrow> lengths_agree (insert_blank_page lib i m)"
  by (auto simp: insert_blank_page_def lengths_agree_def Let_def length_py_insert)

lemma insert_text_page_lengths: "lengths_agree m \<Longrightarrow> lengths_agree (insert_text_page lib i t m)"
  by (auto simp: insert_text_page_def lengths_agree_def Let_def length_py_insert)

lemma insert_blank_page_V4_lengths:
  "lengths_agree m \<Longrightarrow> lengths_agree (fst (insert_blank_page_V4 lib i m))"
  by (simp add: insert_blank_page_V4_def lengths_agree_def Let_def length_py_insert
      split: sum.splits)

lemma insert_text_page_V4_lengths:
  "lengths_agree m \<Longrightarrow> lengths_agree (fst (insert_text_page_V4 lib i t m))"
  by (simp add: insert_text_page_V4_def lengths_agree_def Let_def length_py_insert
      split: sum.splits)

lemma move_page_lengths: "lengths_agree m \<Longrightarrow> lengths_agree (fst (move_page i d m))"
  by (auto simp: move_page_def lengths_agree_def Let_def split: sum.splits
      dest!: py_swap_length)

lemma revert_current_page_lengths:
  "lengths_agree m \<Longrightarrow> lengths_agree (fst (revert_current_page i m))"
  by (auto simp: revert_current_page_def lengths_agree_def split: sum.splits
      dest!: py_setitem_length)

lemma revert_all_loop_lengths:
  "lengths_agree m \<Longrightarrow> lengths_agree (fst (revert_all_loop is m))"
proof (induction "is" arbitrary: m)
  case Nil
  then show ?case by simp
next
  case (Cons i rest)
  show ?case
  proof (cases "py_getitem (original_pages m) i")
    case (Inl e)
    then show ?thesis using Cons.prems by simp
  next
    case (Inr orig)
    show ?thesis
    proof (cases "py_setitem (pages m) i orig")
      case (Inl e)
      then show ?thesis using Cons.prems Inr by simp
    next
      case inner: (Inr ps)
      have "lengths_agree (m\<lparr>pages := ps\<rparr>)"
        using Cons.prems py_setitem_length [OF inner] by (simp add: lengths_agree_def)
      then show ?thesis using Cons.IH Inr inner by simp
    qed
  qed
qed

lemma revert_all_lengths: "lengths_agree m \<Longrightarrow> lengths_agree (fst (revert_all m))"
  by (simp add: revert_all_def revert_all_loop_lengths)

lemma apply_edit_lengths: "lengths_agree m \<Longrightarrow> lengths_agree (apply_edit lib e m)"
  by (cases e)
     (simp_all add: insert_blank_page_lengths insert_text_page_lengths move_page_lengths
        revert_current_page_lengths revert_all_lengths)

lemma apply_edit_V4_lengths: "lengths_agree m \<Longrightarrow> lengths_agree (apply_edit_V4 lib e m)"
  by (cases e)
     (simp_all add: insert_blank_page_V4_lengths insert_text_page_V4_lengths move_page_lengths
        revert_current_page_lengths revert_all_lengths)

text \<open>
  C7: from a document whose three lists have one length, every sequence of
  \<^verbatim>\<open>insert_blank_page\<close>, \<^verbatim>\<open>insert_text_page\<close>, \<^verbatim>\<open>move_page\<close>,
  \<^verbatim>\<open>revert_current_page\<close> and \<^verbatim>\<open>revert_all\<close> calls, with any indices and
  directions (also 0, the length, negative and too large ones), leaves a document whose
  three lists have one length. This holds for the methods of version 6 and for those of
  version 4, where an insertion into an empty document raises and changes nothing.
\<close>

theorem edits_preserve_lengths:
  assumes "lengths_agree m"
  shows "lengths_agree (foldl (\<lambda>m e. apply_edit lib e m) m edits)
       \<and> lengths_agree (foldl (\<lambda>m e. apply_edit_V4 lib e m) m edits)"
proof -
  have "lengths_agree (foldl (\<lambda>m e. apply_edit lib e m) m edits)"
    using assms by (induction edits arbitrary: m) (simp_all add: apply_edit_lengths)
  moreover have "lengths_agree (foldl (\<lambda>m e. apply_edit_V4 lib e m) m edits)"
    using assms by (induction edits arbitrary: m) (simp_all add: apply_edit_V4_lengths)
  ultimately show ?thesis by simp
qed


theorem edits_preserve_lengths_witness:
  "lengths_agree (example_manager 2)
   \<and> lengths_agree (foldl (\<lambda>m e. apply_edit example_pil e m) (example_manager 2)
        [Insert_blank 0, Insert_text 3 ''note'', Move 0 1, Move 0 (- 1), Revert_all,
         Insert_blank 2, Revert_current 1, Revert_current 9])
   \<and> length (pages (foldl (\<lambda>m e. apply_edit example_pil e m) (example_manager 2)
        [Insert_blank 0, Insert_text 3 ''note'', Move 0 1, Move 0 (- 1), Revert_all,
         Insert_blank 2, Revert_current 1, Revert_current 9])) = 5"
proof -
  have h: "lengths_agree (example_manager 2)"
    by (simp add: lengths_agree_def example_manager_def)
  have n: "length (pages (foldl (\<lambda>m e. apply_edit example_pil e m) (example_manager 2)
        [Insert_blank 0, Insert_text 3 ''note'', Move 0 1, Move 0 (- 1), Revert_all,
         Insert_blank 2, Revert_current 1, Revert_current 9])) = 5"
    by code_simp
  show ?thesis using edits_preserve_lengths [OF h, of example_pil] h n by blast
qed

subsection \<open>Loading, reverting and reprocessing\<close>

lemma notify_recording: "notify recording v u = u @ [v]"
  by (simp add: notify_def recording_def)

lemma notify_from_recording:
  "notify_from recording tot i n u = u @ map (\<lambda>k. of_int (i + 1 + int k) / of_int tot) [0..<n]"
proof (induction n arbitrary: i u)
  case 0
  then show ?case by simp
next
  case (Suc n)
  have m: "map (\<lambda>k. of_int (i + 1 + int k) / (of_int tot :: rat)) [0..<Suc n]
        = (of_int (i + 1) / of_int tot) # map (\<lambda>k. of_int (i + 1 + 1 + int k) / of_int tot) [0..<n]"
    by (simp add: upt_conv_Cons map_Suc_upt [symmetric] del: upt_Suc)
  have "notify_from recording tot i (Suc n) u
        = notify_from recording tot (i + 1) n (u @ [of_int (i + 1) / of_int tot])"
    by (simp add: notify_recording)
  also have "\<dots> = (u @ [of_int (i + 1) / of_int tot])
                    @ map (\<lambda>k. of_int (i + 1 + 1 + int k) / of_int tot) [0..<n]"
    by (rule Suc.IH)
  also have "\<dots> = u @ map (\<lambda>k. of_int (i + 1 + int k) / of_int tot) [0..<Suc n]"
    unfolding m by simp
  finally show ?case .
qed

lemma py_setitem_valid:
  "0 \<le> i \<Longrightarrow> nat i < length xs \<Longrightarrow> py_setitem xs i v = Inr (xs[nat i := v])"
  by (simp add: py_setitem_def py_norm_index_def)

lemma py_getitem_valid:
  "0 \<le> i \<Longrightarrow> nat i < length xs \<Longrightarrow> py_getitem xs i = Inr (xs ! nat i)"
  by (simp add: py_getitem_def py_norm_index_def)

lemma reprocess_all_loop_run:
  assumes "0 \<le> idx" and "nat idx + length rest \<le> length (pages m)"
  shows "reprocess_all_loop lib st cb tot idx rest m u =
           (m\<lparr>pages := take (nat idx) (pages m) @ map (\<lambda>img. process_image lib img st) rest
                          @ drop (nat idx + length rest) (pages m)\<rparr>,
            notify_from cb tot idx (length rest) u, None)"
  using assms
proof (induction rest arbitrary: idx m u)
  case Nil
  then show ?case by simp
next
  case (Cons img rest)
  let ?v = "process_image lib img st"
  have lt: "nat idx < length (pages m)" using Cons.prems by simp
  have set: "py_setitem (pages m) idx ?v = Inr ((pages m)[nat idx := ?v])"
    using Cons.prems(1) lt by (rule py_setitem_valid)
  have n1: "nat (idx + 1) = Suc (nat idx)" using Cons.prems(1) by simp
  have pre: "0 \<le> idx + 1"
    "nat (idx + 1) + length rest \<le> length (pages (m\<lparr>pages := (pages m)[nat idx := ?v]\<rparr>))"
    using Cons.prems by simp_all
  have tk: "take (Suc (nat idx)) ((pages m)[nat idx := ?v]) = take (nat idx) (pages m) @ [?v]"
    using lt by (simp add: take_Suc_conv_app_nth)
  show ?case
    using Cons.IH [OF pre] set n1 tk by simp
qed

lemma reprocess_all_pages_run:
  assumes "length (original_pages m) = length (pages m)"
  shows "reprocess_all_pages lib st cb m u =
           (m\<lparr>pages := map (\<lambda>img. process_image lib img st) (original_pages m)\<rparr>,
            notify_from cb (int (length (original_pages m))) 0 (length (original_pages m)) u,
            None)"
  using reprocess_all_loop_run [of 0 "original_pages m" m lib st cb _ u] assms
  by (simp add: reprocess_all_pages_def)

lemma revert_all_loop_run:
  assumes "\<forall>j \<in> set js. j < length (original_pages m) \<and> j < length (pages m)"
  shows "revert_all_loop (map int js) m =
           (m\<lparr>pages := fold (\<lambda>j ps. ps[j := original_pages m ! j]) js (pages m)\<rparr>, None)"
  using assms
proof (induction js arbitrary: m)
  case Nil
  then show ?case by simp
next
  case (Cons j js)
  have g: "py_getitem (original_pages m) (int j) = Inr (original_pages m ! j)"
    using Cons.prems py_getitem_valid [of "int j" "original_pages m"] by simp
  have s: "py_setitem (pages m) (int j) (original_pages m ! j)
            = Inr ((pages m)[j := original_pages m ! j])"
    using Cons.prems py_setitem_valid [of "int j" "pages m"] by simp
  have "\<forall>i \<in> set js. i < length (original_pages (m\<lparr>pages := (pages m)[j := original_pages m ! j]\<rparr>))
          \<and> i < length (pages (m\<lparr>pages := (pages m)[j := original_pages m ! j]\<rparr>))"
    using Cons.prems by simp
  from Cons.IH [OF this] show ?case using g s by simp
qed

lemma fold_copy_nth:
  assumes "k \<le> length ps" and "length os = length ps"
  shows "fold (\<lambda>j ps. ps[j := os ! j]) [0..<k] ps = take k os @ drop k ps"
  using assms
proof (induction k)
  case 0
  then show ?case by simp
next
  case (Suc k)
  then have "fold (\<lambda>j ps. ps[j := os ! j]) [0..<Suc k] ps = (take k os @ drop k ps)[k := os ! k]"
    by simp
  also have "\<dots> = take k os @ (drop k ps)[0 := os ! k]"
    using Suc.prems by (simp add: list_update_append)
  also have "\<dots> = take k os @ os ! k # drop (Suc k) ps"
    using Suc.prems by (cases "drop k ps") (auto simp: drop_Suc drop_tl)
  also have "\<dots> = take (Suc k) os @ drop (Suc k) ps"
    using Suc.prems by (simp add: take_Suc_conv_app_nth)
  finally show ?case .
qed

lemma revert_all_run:
  assumes "length (original_pages m) = length (pages m)"
  shows "revert_all m = (m\<lparr>pages := original_pages m\<rparr>, None)"
proof (cases "pages m = []")
  case True
  then show ?thesis using assms by (simp add: revert_all_def)
next
  case False
  have "revert_all m = revert_all_loop (map int [0..<length (pages m)]) m"
    using False by (simp add: revert_all_def py_range_def upto_all)
  also have "\<dots> = (m\<lparr>pages := fold (\<lambda>j ps. ps[j := original_pages m ! j])
                         [0..<length (pages m)] (pages m)\<rparr>, None)"
    by (rule revert_all_loop_run) (simp add: assms)
  also have "fold (\<lambda>j ps. ps[j := original_pages m ! j]) [0..<length (pages m)] (pages m)
             = original_pages m"
    using fold_copy_nth [of "length (pages m)" "pages m" "original_pages m"] assms by simp
  finally show ?thesis .
qed

lemma load_loop_run:
  "load_loop lib st cb tot idx doc m u =
     (m\<lparr>original_pages := original_pages m
            @ map (\<lambda>pix. Image_frombytes Mode_RGB (pix_width pix, pix_height pix) (pix_samples pix)) doc,
         pages := pages m
            @ map (\<lambda>pix. process_image lib
                     (Image_frombytes Mode_RGB (pix_width pix, pix_height pix) (pix_samples pix)) st) doc\<rparr>,
      notify_from cb tot idx (length doc) u)"
  by (induction doc arbitrary: idx m u) (simp_all add: Let_def)

lemma load_pdf_run:
  "load_pdf lib doc st cb m u =
     (\<lparr>original_pages =
          map (\<lambda>pix. Image_frombytes Mode_RGB (pix_width pix, pix_height pix) (pix_samples pix)) doc,
       pages =
          map (\<lambda>pix. process_image lib
                 (Image_frombytes Mode_RGB (pix_width pix, pix_height pix) (pix_samples pix)) st) doc,
       selected = replicate (length doc) True\<rparr>,
      notify_from cb (int (length doc)) 0 (length doc) u)"
  by (simp add: load_pdf_def load_loop_run Let_def)

lemma load_pdf_lengths: "lengths_agree (fst (load_pdf lib doc st cb m u))"
  by (simp add: load_pdf_run lengths_agree_def)

text \<open>
  C9: on a freshly loaded document, \<^verbatim>\<open>revert_all\<close> followed by
  \<^verbatim>\<open>reprocess_all_pages\<close> with parameters \<open>st\<close> leaves exactly the state that
  \<^verbatim>\<open>reprocess_all_pages\<close> with \<open>st\<close> alone leaves: every processed page is
  \<open>process_image\<close> of its original. No call raises, \<^verbatim>\<open>revert_all\<close> sets every
  processed page to its original, and the originals stay what the rasterizer delivered.
\<close>

theorem revert_then_reprocess:
  assumes "m = fst (load_pdf lib doc st0 cb0 m0 u0)"
  shows "fst (reprocess_all_pages lib st cb (fst (revert_all m)) u)
           = fst (reprocess_all_pages lib st cb m u)
       \<and> pages (fst (reprocess_all_pages lib st cb (fst (revert_all m)) u))
           = map (\<lambda>img. process_image lib img st) (original_pages m)
       \<and> snd (revert_all m) = None
       \<and> snd (snd (reprocess_all_pages lib st cb (fst (revert_all m)) u)) = None
       \<and> snd (snd (reprocess_all_pages lib st cb m u)) = None
       \<and> pages (fst (revert_all m)) = original_pages m
       \<and> original_pages (fst (revert_all m)) = original_pages m
       \<and> original_pages (fst (reprocess_all_pages lib st cb (fst (revert_all m)) u))
           = original_pages m
       \<and> original_pages m
           = map (\<lambda>pix. Image_frombytes Mode_RGB (pix_width pix, pix_height pix) (pix_samples pix)) doc"
proof -
  have len: "length (original_pages m) = length (pages m)"
    using load_pdf_lengths [of lib doc st0 cb0 m0 u0] assms by (simp add: lengths_agree_def)
  have rv: "revert_all m = (m\<lparr>pages := original_pages m\<rparr>, None)"
    using len by (rule revert_all_run)
  have len': "length (original_pages (m\<lparr>pages := original_pages m\<rparr>))
              = length (pages (m\<lparr>pages := original_pages m\<rparr>))" by simp
  have o: "original_pages m
           = map (\<lambda>pix. Image_frombytes Mode_RGB (pix_width pix, pix_height pix) (pix_samples pix)) doc"
    using assms by (simp add: load_pdf_run)
  have r1: "reprocess_all_pages lib st cb (m\<lparr>pages := original_pages m\<rparr>) u =
              (m\<lparr>pages := map (\<lambda>img. process_image lib img st) (original_pages m)\<rparr>,
               notify_from cb (int (length (original_pages m))) 0 (length (original_pages m)) u,
               None)"
    using reprocess_all_pages_run [OF len', of lib st cb u] by simp
  have r2: "reprocess_all_pages lib st cb m u =
              (m\<lparr>pages := map (\<lambda>img. process_image lib img st) (original_pages m)\<rparr>,
               notify_from cb (int (length (original_pages m))) 0 (length (original_pages m)) u,
               None)"
    using len by (rule reprocess_all_pages_run)
  show ?thesis
    unfolding rv fst_conv snd_conv r1 r2 using o by simp
qed


theorem revert_then_reprocess_witness:
  "pages (fst (reprocess_all_pages example_pil (enhancement_parameters 2 1 1 False) None
     (fst (revert_all (fst (load_pdf example_pil example_doc
        (enhancement_parameters (12 / 10) 1 1 True) None
        \<lparr>original_pages = [], pages = [], selected = []\<rparr> ())))) ()))
   = [\<lparr>im_mode = Mode_RGB, im_size = (1, 1), im_data = [245, 235, 225]\<rparr>,
      \<lparr>im_mode = Mode_RGB, im_size = (1, 1), im_data = [255, 127, 0]\<rparr>]
   \<and> fst (reprocess_all_pages example_pil (enhancement_parameters 2 1 1 False) None
     (fst (revert_all (fst (load_pdf example_pil example_doc
        (enhancement_parameters (12 / 10) 1 1 True) None
        \<lparr>original_pages = [], pages = [], selected = []\<rparr> ())))) ())
   = fst (reprocess_all_pages example_pil (enhancement_parameters 2 1 1 False) None
     (fst (load_pdf example_pil example_doc
        (enhancement_parameters (12 / 10) 1 1 True) None
        \<lparr>original_pages = [], pages = [], selected = []\<rparr> ())) ())"
proof -
  define m where "m = fst (load_pdf example_pil example_doc
        (enhancement_parameters (12 / 10) 1 1 True) (None :: unit callback)
        \<lparr>original_pages = [], pages = [], selected = []\<rparr> ())"
  note t = revert_then_reprocess [OF m_def, of "enhancement_parameters 2 1 1 False"
             "None :: unit callback" "()"]
  have o: "original_pages m =
             [\<lparr>im_mode = Mode_RGB, im_size = (1, 1), im_data = [10, 20, 30]\<rparr>,
              \<lparr>im_mode = Mode_RGB, im_size = (1, 1), im_data = [0, 128, 255]\<rparr>]"
    using t by (simp add: example_doc_def Image_frombytes_def)
  have p: "map (\<lambda>img. process_image example_pil img (enhancement_parameters 2 1 1 False))
             (original_pages m)
           = [\<lparr>im_mode = Mode_RGB, im_size = (1, 1), im_data = [245, 235, 225]\<rparr>,
              \<lparr>im_mode = Mode_RGB, im_size = (1, 1), im_data = [255, 127, 0]\<rparr>]"
    unfolding o
    by (simp add: process_image_def enhancement_parameters_def dict_get_def example_pil_def
        ImageOps_invert_def)
  have a: "fst (reprocess_all_pages example_pil (enhancement_parameters 2 1 1 False) None
                 (fst (revert_all m)) ())
           = fst (reprocess_all_pages example_pil (enhancement_parameters 2 1 1 False) None m ())"
    using t by blast
  have b: "pages (fst (reprocess_all_pages example_pil (enhancement_parameters 2 1 1 False) None
                 (fst (revert_all m)) ()))
           = map (\<lambda>img. process_image example_pil img (enhancement_parameters 2 1 1 False))
               (original_pages m)"
    using t by blast
  show ?thesis unfolding m_def [symmetric] using a b [unfolded p] by blast
qed

subsection \<open>Direct export\<close>

lemma py_getitem_at: "valid_index (length xs) i \<Longrightarrow> py_getitem xs i = Inr (py_at xs i)"
  by (auto simp: valid_index_def py_getitem_def py_norm_index_def py_at_def Let_def)

lemma foldl_snoc: "foldl (\<lambda>acc x. acc @ [x]) ys xs = ys @ xs"
  by (induction xs arbitrary: ys) simp_all

lemma export_loop_run:
  assumes "length (selected m) = length (pages m)"
    and "\<forall>idx \<in> set idxs. valid_index (length (pages m)) idx"
  shows "export_loop lib m cb tot i idxs acc u =
           (Inr (acc @ map (\<lambda>p. convert lib p Mode_RGB) (qualifying_pages m idxs)),
            notify_from cb tot i (length idxs) u)"
  using assms(2)
proof (induction idxs arbitrary: i acc u)
  case Nil
  then show ?case by (simp add: qualifying_pages_def)
next
  case (Cons idx rest)
  have v: "valid_index (length (pages m)) idx" using Cons.prems by simp
  have s: "py_getitem (selected m) idx = Inr (py_at (selected m) idx)"
    using v assms(1) by (simp add: py_getitem_at)
  have p: "py_getitem (pages m) idx = Inr (py_at (pages m) idx)"
    using v by (simp add: py_getitem_at)
  have r: "\<forall>idx \<in> set rest. valid_index (length (pages m)) idx" using Cons.prems by simp
  show ?case
    using Cons.IH [OF r] s p by (simp add: qualifying_pages_def)
qed

lemma export_loop_V4_run:
  assumes "length (selected m) = length (pages m)"
    and "\<forall>idx \<in> set idxs. valid_index (length (pages m)) idx"
  shows "export_loop_V4 m cb tot i idxs acc u =
           (Inr (acc @ qualifying_pages m idxs), notify_from cb tot i (length idxs) u)"
  using assms(2)
proof (induction idxs arbitrary: i acc u)
  case Nil
  then show ?case by (simp add: qualifying_pages_def)
next
  case (Cons idx rest)
  have v: "valid_index (length (pages m)) idx" using Cons.prems by simp
  have s: "py_getitem (selected m) idx = Inr (py_at (selected m) idx)"
    using v assms(1) by (simp add: py_getitem_at)
  have p: "py_getitem (pages m) idx = Inr (py_at (pages m) idx)"
    using v by (simp add: py_getitem_at)
  have r: "\<forall>idx \<in> set rest. valid_index (length (pages m)) idx" using Cons.prems by simp
  show ?case
    using Cons.IH [OF r] s p by (simp add: qualifying_pages_def)
qed

lemma export_pdf_run:
  assumes "length (selected m) = length (pages m)"
    and "\<forall>idx \<in> set page_indices. valid_index (length (pages m)) idx"
  shows "export_pdf lib out_path page_indices cb quality m fs u =
           (if qualifying_pages m page_indices = []
            then (fs, notify_from cb (int (length page_indices)) 0 (length page_indices) u,
                  Some NoPagesSelected)
            else (fs(out_path \<mapsto> map (\<lambda>p. convert lib p Mode_RGB) (qualifying_pages m page_indices)),
                  notify_from cb (int (length page_indices)) 0 (length page_indices) u, None))"
  by (simp add: export_pdf_def export_loop_run [OF assms] foldl_snoc save_pdf_def Let_def
      split: list.splits)

lemma export_pdf_V4_run:
  assumes "length (selected m) = length (pages m)"
    and "requested_indices_V4 m page_range = Inr idxs"
    and "\<forall>idx \<in> set idxs. valid_index (length (pages m)) idx"
  shows "export_pdf_V4 out_path page_range cb m fs u =
           (if qualifying_pages m idxs = []
            then (fs, notify_from cb (int (length idxs)) 0 (length idxs) u, Some NoPagesSelected)
            else (fs(out_path \<mapsto> qualifying_pages m idxs),
                  notify_from cb (int (length idxs)) 0 (length idxs) u, None))"
  by (simp add: export_pdf_V4_def assms(2) export_loop_V4_run [OF assms(1,3)] save_pdf_def Let_def
      split: list.splits)

lemma export_pdf_error_keeps_files:
  "snd (snd (export_pdf lib out_path page_indices cb quality m fs u)) \<noteq> None
   \<Longrightarrow> fst (export_pdf lib out_path page_indices cb quality m fs u) = fs"
  by (auto simp: export_pdf_def Let_def split: prod.splits sum.splits list.splits if_splits)

lemma export_pdf_V4_error_keeps_files:
  "snd (snd (export_pdf_V4 out_path page_range cb m fs u)) \<noteq> None
   \<Longrightarrow> fst (export_pdf_V4 out_path page_range cb m fs u) = fs"
  by (auto simp: export_pdf_V4_def Let_def split: prod.splits sum.splits list.splits if_splits)

text \<open>
  C5: an export that raises, for whatever reason, leaves the files as they were. When
  the three lists have one length and every requested index is one the lists accept:
  if no requested page is selected, \<^verbatim>\<open>export_pdf\<close> raises
  \<^verbatim>\<open>Exception("No pages selected for export!")\<close> and writes nothing; otherwise it
  returns normally and the file at \<open>out_path\<close> is one document whose pages are the
  \<open>N\<close> qualifying pages, one page each, in the order of the request (version 6 passes
  each through \<^verbatim>\<open>convert("RGB")\<close>, version 4 stores them as they are). The writer of
  the document is taken to succeed.
\<close>

theorem export_pdf_pages:
  "(snd (snd (export_pdf lib out_path page_indices cb quality m fs u)) \<noteq> None \<longrightarrow>
      fst (export_pdf lib out_path page_indices cb quality m fs u) = fs)
   \<and> (length (selected m) = length (pages m)
        \<and> (\<forall>idx \<in> set page_indices. valid_index (length (pages m)) idx) \<longrightarrow>
       (qualifying_pages m page_indices = [] \<longrightarrow>
          snd (snd (export_pdf lib out_path page_indices cb quality m fs u)) = Some NoPagesSelected
          \<and> fst (export_pdf lib out_path page_indices cb quality m fs u) = fs)
     \<and> (qualifying_pages m page_indices \<noteq> [] \<longrightarrow>
          snd (snd (export_pdf lib out_path page_indices cb quality m fs u)) = None
          \<and> fst (export_pdf lib out_path page_indices cb quality m fs u)
              = fs(out_path \<mapsto> map (\<lambda>p. convert lib p Mode_RGB) (qualifying_pages m page_indices))))
   \<and> (snd (snd (export_pdf_V4 out_path page_range cb m fs u)) \<noteq> None \<longrightarrow>
      fst (export_pdf_V4 out_path page_range cb m fs u) = fs)
   \<and> (length (selected m) = length (pages m)
        \<and> requested_indices_V4 m page_range = Inr idxs
        \<and> (\<forall>idx \<in> set idxs. valid_index (length (pages m)) idx) \<longrightarrow>
       (qualifying_pages m idxs = [] \<longrightarrow>
          snd (snd (export_pdf_V4 out_path page_range cb m fs u)) = Some NoPagesSelected
          \<and> fst (export_pdf_V4 out_path page_range cb m fs u) = fs)
     \<and> (qualifying_pages m idxs \<noteq> [] \<longrightarrow>
          snd (snd (export_pdf_V4 out_path page_range cb m fs u)) = None
          \<and> fst (export_pdf_V4 out_path page_range cb m fs u)
              = fs(out_path \<mapsto> qualifying_pages m idxs)))"
proof (intro conjI impI)
  assume "snd (snd (export_pdf lib out_path page_indices cb quality m fs u)) \<noteq> None"
  then show "fst (export_pdf lib out_path page_indices cb quality m fs u) = fs"
    by (rule export_pdf_error_keeps_files)
next
  assume "snd (snd (export_pdf_V4 out_path page_range cb m fs u)) \<noteq> None"
  then show "fst (export_pdf_V4 out_path page_range cb m fs u) = fs"
    by (rule export_pdf_V4_error_keeps_files)
qed (simp_all add: export_pdf_run export_pdf_V4_run)


theorem export_pdf_pages_witness:
  "snd (snd (export_pdf example_pil ''out.pdf'' [0, 1, 2] None 85
        ((example_manager 3)\<lparr>selected := [False, False, False]\<rparr>) Map.empty ()))
     = Some NoPagesSelected
   \<and> fst (export_pdf example_pil ''out.pdf'' [0, 1, 2] None 85
        ((example_manager 3)\<lparr>selected := [False, False, False]\<rparr>) Map.empty ()) ''out.pdf''
     = None
   \<and> snd (snd (export_pdf example_pil ''out.pdf'' [2, 0, 1] None 85
        ((example_manager 3)\<lparr>selected := [True, False, True]\<rparr>) Map.empty ()))
     = None
   \<and> fst (export_pdf example_pil ''out.pdf'' [2, 0, 1] None 85
        ((example_manager 3)\<lparr>selected := [True, False, True]\<rparr>) Map.empty ()) ''out.pdf''
     = Some [ImageOps_invert (example_page 2), ImageOps_invert (example_page 0)]"
proof -
  let ?m0 = "(example_manager 3)\<lparr>selected := [False, False, False]\<rparr>"
  let ?m1 = "(example_manager 3)\<lparr>selected := [True, False, True]\<rparr>"
  have l0: "length (selected ?m0) = length (pages ?m0)"
    and l1: "length (selected ?m1) = length (pages ?m1)"
    by (simp_all add: example_manager_def)
  have v0: "\<forall>idx \<in> set [0, 1, 2]. valid_index (length (pages ?m0)) idx"
    and v1: "\<forall>idx \<in> set [2, 0, 1]. valid_index (length (pages ?m1)) idx"
    by (simp_all add: example_manager_def valid_index_def)
  have q0: "qualifying_pages ?m0 [0, 1, 2] = []"
    by (simp add: qualifying_pages_def py_at_def)
  have q1: "qualifying_pages ?m1 [2, 0, 1]
            = [ImageOps_invert (example_page 2), ImageOps_invert (example_page 0)]"
    by (simp add: qualifying_pages_def py_at_def example_manager_def upt_rec example_page_def
        ImageOps_invert_def)
  have c: "map (\<lambda>p. convert example_pil p Mode_RGB)
             [ImageOps_invert (example_page 2), ImageOps_invert (example_page 0)]
           = [ImageOps_invert (example_page 2), ImageOps_invert (example_page 0)]"
    by (simp add: example_pil_def ImageOps_invert_def example_page_def)
  have q1ne: "qualifying_pages ?m1 [2, 0, 1] \<noteq> []" unfolding q1 by simp
  note t0 = export_pdf_pages [of example_pil "''out.pdf''" "[0, 1, 2]" "None :: unit callback"
              85 ?m0 Map.empty "()"]
  note t1 = export_pdf_pages [of example_pil "''out.pdf''" "[2, 0, 1]" "None :: unit callback"
              85 ?m1 Map.empty "()"]
  have a: "snd (snd (export_pdf example_pil ''out.pdf'' [0, 1, 2] (None :: unit callback) 85
             ?m0 Map.empty ())) = Some NoPagesSelected"
    and b: "fst (export_pdf example_pil ''out.pdf'' [0, 1, 2] (None :: unit callback) 85
             ?m0 Map.empty ()) = Map.empty"
    using t0 l0 v0 q0 by blast+
  have d: "snd (snd (export_pdf example_pil ''out.pdf'' [2, 0, 1] (None :: unit callback) 85
             ?m1 Map.empty ())) = None"
    and e: "fst (export_pdf example_pil ''out.pdf'' [2, 0, 1] (None :: unit callback) 85
             ?m1 Map.empty ())
            = Map.empty(''out.pdf'' \<mapsto> map (\<lambda>p. convert example_pil p Mode_RGB)
                 (qualifying_pages ?m1 [2, 0, 1]))"
    using t1 l1 v1 q1ne by blast+
  show ?thesis
    unfolding a b d e q1 c by simp
qed

text \<open>
  C10: in an export with an explicit list of indices (the lists of one length, the
  indices acceptable), the document holds the page at a requested index only when its
  selected flag is set, in request order; a requested index whose page is deselected
  is passed over without error. The progress callback is called once for every requested
  index, selected or not: for \<open>n\<close> requested indices it receives \<open>1/n, 2/n, ..., n/n\<close>.
  The same holds in version 4 for the indices its range string yields.
\<close>

theorem export_progress_counts_requests:
  "length (selected m) = length (pages m)
     \<and> (\<forall>idx \<in> set page_indices. valid_index (length (pages m)) idx) \<longrightarrow>
       fst (snd (export_pdf lib out_path page_indices recording quality m fs trace))
         = trace @ fractions (length page_indices) (length page_indices)
     \<and> fst (snd (export_pdf lib out_path page_indices cb quality m fs u))
         = notify_from cb (int (length page_indices)) 0 (length page_indices) u
     \<and> (qualifying_pages m page_indices \<noteq> [] \<longrightarrow>
          fst (export_pdf lib out_path page_indices cb quality m fs u) out_path
            = Some (map (\<lambda>idx. convert lib (py_at (pages m) idx) Mode_RGB)
                     (filter (py_at (selected m)) page_indices)))
     \<and> (requested_indices_V4 m page_range = Inr page_indices \<longrightarrow>
          fst (snd (export_pdf_V4 out_path page_range recording m fs trace))
            = trace @ fractions (length page_indices) (length page_indices)
        \<and> (qualifying_pages m page_indices \<noteq> [] \<longrightarrow>
             fst (export_pdf_V4 out_path page_range cb m fs u) out_path
               = Some (map (py_at (pages m)) (filter (py_at (selected m)) page_indices))))"
  by (simp add: export_pdf_run export_pdf_V4_run notify_from_recording fractions_def
      qualifying_pages_def add.commute)

theorem export_progress_counts_requests_witness:
  "fst (snd (export_pdf example_pil ''out.pdf'' [0, 1, 2] recording 85
        ((example_manager 3)\<lparr>selected := [True, False, True]\<rparr>) Map.empty []))
     = [1 / 3, 2 / 3, 1]
   \<and> fst (export_pdf example_pil ''out.pdf'' [0, 1, 2] recording 85
        ((example_manager 3)\<lparr>selected := [True, False, True]\<rparr>) Map.empty []) ''out.pdf''
     = Some [ImageOps_invert (example_page 0), ImageOps_invert (example_page 2)]"
proof -
  let ?m = "(example_manager 3)\<lparr>selected := [True, False, True]\<rparr>"
  have l: "length (selected ?m) = length (pages ?m)"
    by (simp add: example_manager_def)
  have v: "\<forall>idx \<in> set [0, 1, 2]. valid_index (length (pages ?m)) idx"
    by (simp add: example_manager_def valid_index_def)
  have q: "qualifying_pages ?m [0, 1, 2]
            = [ImageOps_invert (example_page 0), ImageOps_invert (example_page 2)]"
    by (simp add: qualifying_pages_def py_at_def example_manager_def upt_rec example_page_def
        ImageOps_invert_def)
  have f: "map (\<lambda>idx. convert example_pil (py_at (pages ?m) idx) Mode_RGB)
             (filter (py_at (selected ?m)) [0, 1, 2])
           = [ImageOps_invert (example_page 0), ImageOps_invert (example_page 2)]"
    by (simp add: py_at_def example_manager_def upt_rec example_pil_def ImageOps_invert_def
        example_page_def)
  have qne: "qualifying_pages ?m [0, 1, 2] \<noteq> []" unfolding q by simp
  have fr: "fractions (length [0::int, 1, 2]) (length [0::int, 1, 2]) = [1 / 3, 2 / 3, 1]"
    by (simp add: fractions_def upt_rec)
  note t = export_progress_counts_requests [of ?m "[0, 1, 2]" example_pil "''out.pdf''" 85
             Map.empty "[]" recording "[]"]
  have a: "fst (snd (export_pdf example_pil ''out.pdf'' [0, 1, 2] recording 85 ?m Map.empty []))
           = [] @ fractions (length [0::int, 1, 2]) (length [0::int, 1, 2])"
    using t l v by blast
  have b: "fst (export_pdf example_pil ''out.pdf'' [0, 1, 2] recording 85 ?m Map.empty [])
             ''out.pdf''
           = Some (map (\<lambda>idx. convert example_pil (py_at (pages ?m) idx) Mode_RGB)
                     (filter (py_at (selected ?m)) [0, 1, 2]))"
    using t l v qne by blast
  show ?thesis unfolding a b f fr by simp
qed

subsection \<open>The enhancement pipeline\<close>

lemma py_setitem_twice:
  "py_setitem xs i v = Inr ys \<Longrightarrow> py_setitem ys i v = Inr ys"
  by (auto simp: py_setitem_def split: option.splits)

lemma reprocess_current_page_twice:
  "reprocess_current_page lib index st (fst (reprocess_current_page lib index st m))
     = reprocess_current_page lib index st m"
  by (auto simp: reprocess_current_page_def split: sum.splits dest: py_setitem_twice)

text \<open>
  C1: for every image and every EnhancementParameters value \<open>(c, b, s, g)\<close>,
  \<open>process_image\<close> is the fixed chain: full inversion first (every channel value
  \<open>v\<close> becomes \<open>255 - v\<close>), then, when \<open>g\<close> is set, conversion to one luminance
  channel and back to three channels, then contrast by \<open>c\<close>, brightness by \<open>b\<close>,
  sharpness by \<open>s\<close>. Version 4 computes the same image. The result is a function of
  the image and the parameters alone: the method reads no state, and running it a second
  time on the same stored original with the same parameters changes nothing. The
  library's enhancement and conversion calls return an image of the size of their
  argument; given that, the result has the width and height of the input, for every
  settings value.
\<close>

theorem process_image_pipeline:
  assumes "\<And>i md. im_size (convert lib i md) = im_size i"
    and "\<And>i f. im_size (Contrast_enhance lib i f) = im_size i"
    and "\<And>i f. im_size (Brightness_enhance lib i f) = im_size i"
    and "\<And>i f. im_size (Sharpness_enhance lib i f) = im_size i"
  shows "process_image lib img (enhancement_parameters c b s g) =
           Sharpness_enhance lib
             (Brightness_enhance lib
                (Contrast_enhance lib
                   (if g then convert lib (convert lib (ImageOps_invert img) Mode_L) Mode_RGB
                    else ImageOps_invert img)
                   c)
                b)
             s
       \<and> im_data (ImageOps_invert img) = map (\<lambda>v. 255 - v) (im_data img)
       \<and> im_size (ImageOps_invert img) = im_size img
       \<and> im_size (process_image lib img (enhancement_parameters c b s g)) = im_size img
       \<and> im_size (process_image lib img st) = im_size img
       \<and> process_image_V4 lib img (enhancement_parameters c b s g)
           = Inr (process_image lib img (enhancement_parameters c b s g))
       \<and> reprocess_current_page lib index st (fst (reprocess_current_page lib index st m))
           = reprocess_current_page lib index st m"
proof -
  have sz: "im_size (process_image lib img st') = im_size img" for st'
    by (simp add: process_image_def Let_def assms ImageOps_invert_def)
  show ?thesis
    unfolding sz reprocess_current_page_twice
    by (simp add: process_image_def process_image_V4_def enhancement_parameters_def dict_get_def
        ImageOps_invert_def Let_def)
qed

theorem process_image_pipeline_witness:
  "process_image example_pil \<lparr>im_mode = Mode_RGB, im_size = (2, 1), im_data = [0, 10, 255, 1, 2, 3]\<rparr>
     (enhancement_parameters (12 / 10) 1 1 True)
   = \<lparr>im_mode = Mode_RGB, im_size = (2, 1), im_data = [255, 245, 0, 254, 253, 252]\<rparr>
   \<and> im_size (process_image example_pil
        \<lparr>im_mode = Mode_RGB, im_size = (2, 1), im_data = [0, 10, 255, 1, 2, 3]\<rparr>
        (enhancement_parameters (12 / 10) 1 1 True)) = (2, 1)"
proof -
  let ?img = "\<lparr>im_mode = Mode_RGB, im_size = (2, 1), im_data = [0, 10, 255, 1, 2, 3]\<rparr>"
  have h: "\<And>i md. im_size (convert example_pil i md) = im_size i"
    "\<And>i f. im_size (Contrast_enhance example_pil i f) = im_size i"
    "\<And>i f. im_size (Brightness_enhance example_pil i f) = im_size i"
    "\<And>i f. im_size (Sharpness_enhance example_pil i f) = im_size i"
    by (simp_all add: example_pil_def)
  note t = process_image_pipeline [of example_pil, OF h, of ?img "12 / 10" 1 1 True]
  have a: "process_image example_pil ?img (enhancement_parameters (12 / 10) 1 1 True) =
           Sharpness_enhance example_pil
             (Brightness_enhance example_pil
                (Contrast_enhance example_pil
                   (convert example_pil (convert example_pil (ImageOps_invert ?img) Mode_L) Mode_RGB)
                   (12 / 10))
                1)
             1"
    using t by simp
  have b: "im_size (process_image example_pil ?img (enhancement_parameters (12 / 10) 1 1 True))
           = im_size ?img"
    using t by blast
  have c: "Sharpness_enhance example_pil
             (Brightness_enhance example_pil
                (Contrast_enhance example_pil
                   (convert example_pil (convert example_pil (ImageOps_invert ?img) Mode_L) Mode_RGB)
                   (12 / 10))
                1)
             1
           = \<lparr>im_mode = Mode_RGB, im_size = (2, 1), im_data = [255, 245, 0, 254, 253, 252]\<rparr>"
    by (simp add: example_pil_def ImageOps_invert_def)
  show ?thesis using a b c by simp
qed

subsection \<open>The quality parameter of the direct export\<close>

text \<open>
  C4 states that \<^verbatim>\<open>export_pdf\<close> passes every image through a lossy encode and
  decode at the supplied quality before the document is assembled. The docstring of
  \<^verbatim>\<open>export_pdf\<close> says so too ("We compress each image to JPEG in-memory"), and
  \<^verbatim>\<open>_generate_compact_thread\<close> does it for its sheets. The body of
  \<^verbatim>\<open>export_pdf\<close> never reads \<^verbatim>\<open>quality\<close>: the result is the same for every
  quality, and the document holds the converted page itself. With the stand-in codec,
  which turns 255 into 248, a white page exported at quality 10 is stored as 255.
\<close>

theorem export_pdf_quality_unused:
  "export_pdf lib out_path page_indices cb quality m fs u
     = export_pdf lib out_path page_indices cb quality' m fs u
   \<and> fst (export_pdf lib out_path [0] cb 10
          \<lparr>original_pages = [orig], pages = [page], selected = [True]\<rparr> fs u) out_path
     = Some [convert lib page Mode_RGB]
   \<and> fst (export_pdf example_pil ''out.pdf'' [0] None 10 (example_manager 1) Map.empty ()) ''out.pdf''
     = Some [\<lparr>im_mode = Mode_RGB, im_size = (1, 1), im_data = [255, 255, 255]\<rparr>]
   \<and> jpeg_reopen example_pil \<lparr>im_mode = Mode_RGB, im_size = (1, 1), im_data = [255, 255, 255]\<rparr> 10
     = \<lparr>im_mode = Mode_RGB, im_size = (1, 1), im_data = [248, 248, 248]\<rparr>"
  by (simp add: export_pdf_def py_getitem_def py_norm_index_def save_pdf_def notify_def
      example_pil_def example_manager_def example_page_def ImageOps_invert_def Let_def)

subsection \<open>Landscape rotation in the preview\<close>

lemma landscape_2x2_geometry:
  "layout_geometry landscape_2x2 =
     \<lparr>g_cols = 2, g_rows = 2, g_sheet_w = 2338, g_sheet_h = 1653,
      g_outer_px = 39, g_inner_px = 15, g_cell_w = 1122, g_cell_h = 780\<rparr>"
  by (simp add: layout_geometry_def landscape_2x2_def layout_grid_def PAPER_SIZES_MM_def
      DEFAULT_DPI_def mm_to_px_297 mm_to_px_210 mm_to_px_5 mm_to_px_2 returned_def)

lemma two_pages_sheet_count:
  "length (pages m) = 2 \<Longrightarrow> sheet_count (layout_geometry landscape_2x2) m = 1"
proof -
  have "\<lceil>(1 :: rat) / 2\<rceil> = 1" by (rule ceiling_unique) simp_all
  then show "length (pages m) = 2 \<Longrightarrow> sheet_count (layout_geometry landscape_2x2) m = 1"
    by (simp add: sheet_count_def landscape_2x2_geometry)
qed

text \<open>
  C3 states that both paths rotate a landscape sheet once, after all its cells are
  placed, so that the preview gives a prefix of the exported sheets. The comment in
  \<^verbatim>\<open>_compose_sheets_preview\<close> says the same ("Rotate after all images have been
  placed, not before"), but there the rotation and the \<^verbatim>\<open>append\<close> are indented
  into the loop over the cells. For a landscape 2x2 layout and a document of two pages:
  the preview returns two images, the first rotated once with the second page pasted
  onto the rotated sheet, the second rotated twice; the export path builds one sheet,
  both pages pasted, rotated once.
\<close>

theorem preview_rotates_after_each_cell:
  "pages m = [p0, p1] \<longrightarrow>
     compose_sheets_preview lib landscape_2x2 m 2 =
       Some [paste_page lib (layout_geometry landscape_2x2) p1 (1176, 39)
               (transpose_ROTATE_270 lib
                  (paste_page lib (layout_geometry landscape_2x2) p0 (39, 39)
                     (Image_new lib (2338, 1653)))),
             transpose_ROTATE_270 lib
               (paste_page lib (layout_geometry landscape_2x2) p1 (1176, 39)
                  (transpose_ROTATE_270 lib
                     (paste_page lib (layout_geometry landscape_2x2) p0 (39, 39)
                        (Image_new lib (2338, 1653)))))]
     \<and> fst (compose_sheets lib landscape_2x2 (layout_geometry landscape_2x2) m
              (py_range 0 (sheet_count (layout_geometry landscape_2x2) m)) [] u) =
       [transpose_ROTATE_270 lib
          (paste_page lib (layout_geometry landscape_2x2) p1 (1176, 39)
             (paste_page lib (layout_geometry landscape_2x2) p0 (39, 39)
                (Image_new lib (2338, 1653))))]"
proof
  assume p: "pages m = [p0, p1]"
  then have sc: "sheet_count (layout_geometry landscape_2x2) m = 1"
    by (simp add: two_pages_sheet_count)
  have r1: "py_range 0 1 = [0]" "py_range 0 (min 1 2) = [0]" "py_range 0 4 = [0, 1, 2, 3]"
    by (simp_all add: py_range_def upto.simps)
  have g: "g_cols (layout_geometry landscape_2x2) = 2" "g_rows (layout_geometry landscape_2x2) = 2"
    "g_sheet_w (layout_geometry landscape_2x2) = 2338"
    "g_sheet_h (layout_geometry landscape_2x2) = 1653"
    by (simp_all add: landscape_2x2_geometry)
  have o: "cell_origin (layout_geometry landscape_2x2) True 0 = (39, 39)"
    "cell_origin (layout_geometry landscape_2x2) True 1 = (1176, 39)"
    by (simp_all add: landscape_2x2_geometry cell_origin_def)
  have lo: "lo_reading_direction landscape_2x2 = ''Left to Right''"
    "lo_orientation landscape_2x2 = ''Landscape''" "lo_with_border landscape_2x2 = False"
    by (simp_all add: landscape_2x2_def)
  have a: "compose_sheets_preview lib landscape_2x2 m 2 =
       Some [paste_page lib (layout_geometry landscape_2x2) p1 (1176, 39)
               (transpose_ROTATE_270 lib
                  (paste_page lib (layout_geometry landscape_2x2) p0 (39, 39)
                     (Image_new lib (2338, 1653)))),
             transpose_ROTATE_270 lib
               (paste_page lib (layout_geometry landscape_2x2) p1 (1176, 39)
                  (transpose_ROTATE_270 lib
                     (paste_page lib (layout_geometry landscape_2x2) p0 (39, 39)
                        (Image_new lib (2338, 1653)))))]"
    by (simp add: compose_sheets_preview_def sc r1 g o lo p heap_alloc_def Let_def)
  have b: "fst (compose_sheets lib landscape_2x2 (layout_geometry landscape_2x2) m
              (py_range 0 (sheet_count (layout_geometry landscape_2x2) m)) [] u) =
       [transpose_ROTATE_270 lib
          (paste_page lib (layout_geometry landscape_2x2) p1 (1176, 39)
             (paste_page lib (layout_geometry landscape_2x2) p0 (39, 39)
                (Image_new lib (2338, 1653))))]"
    by (simp add: sc r1 g o lo p Let_def)
  show "compose_sheets_preview lib landscape_2x2 m 2 =
       Some [paste_page lib (layout_geometry landscape_2x2) p1 (1176, 39)
               (transpose_ROTATE_270 lib
                  (paste_page lib (layout_geometry landscape_2x2) p0 (39, 39)
                     (Image_new lib (2338, 1653)))),
             transpose_ROTATE_270 lib
               (paste_page lib (layout_geometry landscape_2x2) p1 (1176, 39)
                  (transpose_ROTATE_270 lib
                     (paste_page lib (layout_geometry landscape_2x2) p0 (39, 39)
                        (Image_new lib (2338, 1653)))))]
     \<and> fst (compose_sheets lib landscape_2x2 (layout_geometry landscape_2x2) m
              (py_range 0 (sheet_count (layout_geometry landscape_2x2) m)) [] u) =
       [transpose_ROTATE_270 lib
          (paste_page lib (layout_geometry landscape_2x2) p1 (1176, 39)
             (paste_page lib (layout_geometry landscape_2x2) p0 (39, 39)
                (Image_new lib (2338, 1653))))]"
    using a b by simp
qed


theorem preview_rotates_after_each_cell_witness:
  "map im_size (the (compose_sheets_preview example_pil landscape_2x2 (example_manager 2) 2))
     = [(1653, 2338), (2338, 1653)]
   \<and> map im_size (fst (compose_sheets example_pil landscape_2x2 (layout_geometry landscape_2x2)
        (example_manager 2)
        (py_range 0 (sheet_count (layout_geometry landscape_2x2) (example_manager 2))) [] []))
     = [(1653, 2338)]"
proof -
  have p: "pages (example_manager 2)
           = [ImageOps_invert (example_page 0), ImageOps_invert (example_page 1)]"
    by (simp add: example_manager_def upt_rec)
  note t = preview_rotates_after_each_cell [of "example_manager 2"
             "ImageOps_invert (example_page 0)" "ImageOps_invert (example_page 1)"
             example_pil "[]"]
  have a: "compose_sheets_preview example_pil landscape_2x2 (example_manager 2) 2 =
       Some [paste_page example_pil (layout_geometry landscape_2x2)
               (ImageOps_invert (example_page 1)) (1176, 39)
               (transpose_ROTATE_270 example_pil
                  (paste_page example_pil (layout_geometry landscape_2x2)
                     (ImageOps_invert (example_page 0)) (39, 39)
                     (Image_new example_pil (2338, 1653)))),
             transpose_ROTATE_270 example_pil
               (paste_page example_pil (layout_geometry landscape_2x2)
                  (ImageOps_invert (example_page 1)) (1176, 39)
                  (transpose_ROTATE_270 example_pil
                     (paste_page example_pil (layout_geometry landscape_2x2)
                        (ImageOps_invert (example_page 0)) (39, 39)
                        (Image_new example_pil (2338, 1653)))))]"
    using t p by blast
  have b: "fst (compose_sheets example_pil landscape_2x2 (layout_geometry landscape_2x2)
              (example_manager 2)
              (py_range 0 (sheet_count (layout_geometry landscape_2x2) (example_manager 2))) [] []) =
       [transpose_ROTATE_270 example_pil
          (paste_page example_pil (layout_geometry landscape_2x2)
             (ImageOps_invert (example_page 1)) (1176, 39)
             (paste_page example_pil (layout_geometry landscape_2x2)
                (ImageOps_invert (example_page 0)) (39, 39)
                (Image_new example_pil (2338, 1653))))]"
    using t p by blast
  show ?thesis
    unfolding a b by (simp add: paste_page_def example_pil_def Let_def)
qed

subsection \<open>Progress values\<close>

lemma py_range_nat: "py_range 0 x = map int [0..<nat x]"
proof (cases "0 \<le> x")
  case True
  then show ?thesis using upto_all [of "nat x"] by (simp add: py_range_def)
next
  case False
  then show ?thesis by (simp add: py_range_def)
qed

lemma set_progress_append: "set_progress v u = u @ [v]"
  by (simp add: set_progress_def)

lemma place_cells_trace:
  "snd (place_cells lib lo g m s cs sheet u) =
     u @ map (\<lambda>c. of_int (s * (g_cols g * g_rows g) + c + 1) / of_int (int (length (pages m))))
           (takeWhile (\<lambda>c. s * (g_cols g * g_rows g) + c < int (length (pages m))) cs)"
proof (induction cs arbitrary: sheet u)
  case Nil
  then show ?case by simp
next
  case (Cons c cs)
  show ?case
  proof (cases "s * (g_cols g * g_rows g) + c < int (length (pages m))")
    case True
    then show ?thesis
      by (simp add: Let_def Cons.IH set_progress_append)
  next
    case False
    then show ?thesis by (simp add: Let_def)
  qed
qed

lemma compose_sheets_trace:
  "snd (compose_sheets lib lo g m ss imgs u) =
     u @ concat (map (\<lambda>s.
           map (\<lambda>c. of_int (s * (g_cols g * g_rows g) + c + 1) / of_int (int (length (pages m))))
             (takeWhile (\<lambda>c. s * (g_cols g * g_rows g) + c < int (length (pages m)))
                (py_range 0 (g_cols g * g_rows g)))) ss)"
proof (induction ss arbitrary: imgs u)
  case Nil
  then show ?case by simp
next
  case (Cons s ss)
  obtain sh u' where pc:
    "place_cells lib lo g m s (py_range 0 (g_cols g * g_rows g))
       (Image_new lib (nat (g_sheet_w g), nat (g_sheet_h g))) u = (sh, u')"
    by (cases "place_cells lib lo g m s (py_range 0 (g_cols g * g_rows g))
       (Image_new lib (nat (g_sheet_w g), nat (g_sheet_h g))) u")
  have u': "u' = u @ map (\<lambda>c. of_int (s * (g_cols g * g_rows g) + c + 1) / of_int (int (length (pages m))))
           (takeWhile (\<lambda>c. s * (g_cols g * g_rows g) + c < int (length (pages m)))
              (py_range 0 (g_cols g * g_rows g)))"
    using place_cells_trace [of lib lo g m s "py_range 0 (g_cols g * g_rows g)"
        "Image_new lib (nat (g_sheet_w g), nat (g_sheet_h g))" u] pc by simp
  show ?case
    by (simp add: Let_def pc Cons.IH u')
qed

lemma compose_sheets_length:
  "length (fst (compose_sheets lib lo g m ss imgs u)) = length imgs + length ss"
proof (induction ss arbitrary: imgs u)
  case Nil
  then show ?case by simp
next
  case (Cons s ss)
  show ?case
    by (simp add: Let_def Cons.IH split: prod.splits)
qed

lemma prepare_sheets_run:
  "prepare_sheets lib q n idx sheets acc u =
     (acc @ map (\<lambda>sh. convert lib (jpeg_reopen lib sh q) Mode_RGB) sheets,
      u @ map (\<lambda>j. of_int (idx + 1 + int j) / of_int n * (9 / 10)) [0..<length sheets])"
proof (induction sheets arbitrary: idx acc u)
  case Nil
  then show ?case by simp
next
  case (Cons sh sheets)
  have m: "map (\<lambda>j. of_int (idx + 1 + int j) / (of_int n :: rat) * (9 / 10)) [0..<Suc (length sheets)]
        = (of_int (idx + 1) / of_int n * (9 / 10))
          # map (\<lambda>j. of_int (idx + 1 + 1 + int j) / of_int n * (9 / 10)) [0..<length sheets]"
    by (simp add: upt_conv_Cons map_Suc_upt [symmetric] del: upt_Suc)
  have "prepare_sheets lib q n idx (sh # sheets) acc u
        = prepare_sheets lib q n (idx + 1) sheets
            (acc @ [convert lib (jpeg_reopen lib sh q) Mode_RGB])
            (u @ [of_int (idx + 1) / of_int n * (9 / 10)])"
    by (simp add: Let_def set_progress_append)
  also have "\<dots> = ((acc @ [convert lib (jpeg_reopen lib sh q) Mode_RGB])
                     @ map (\<lambda>sh. convert lib (jpeg_reopen lib sh q) Mode_RGB) sheets,
                    (u @ [of_int (idx + 1) / of_int n * (9 / 10)])
                     @ map (\<lambda>j. of_int (idx + 1 + 1 + int j) / of_int n * (9 / 10)) [0..<length sheets])"
    by (rule Cons.IH)
  finally show ?case unfolding length_Cons m by simp
qed

lemma takeWhile_less_upt: "takeWhile (\<lambda>c. c < t) [0..<b] = [0..<min b t]"
proof (cases "b \<le> t")
  case True
  then have "\<forall>c \<in> set [0..<b]. c < t" by simp
  then have "takeWhile (\<lambda>c. c < t) [0..<b] = [0..<b]"
    by (simp only: takeWhile_eq_all_conv)
  then show ?thesis using True by (simp add: min_def)
next
  case False
  then have tb: "t < b" by simp
  then have sp: "[0..<b] = [0..<t] @ t # [Suc t..<b]"
    using upt_add_eq_append [of 0 t "b - t"] by (simp add: upt_conv_Cons)
  have "takeWhile (\<lambda>c. c < t) ([0..<t] @ t # [Suc t..<b])
        = [0..<t] @ takeWhile (\<lambda>c. c < t) (t # [Suc t..<b])"
    by (rule takeWhile_append2) simp
  then show ?thesis using tb unfolding sp [symmetric] by (simp add: min_def)
qed

lemma fractions_append:
  "fractions a n @ map (\<lambda>c. of_nat (a + c + 1) / of_nat n) [0..<t] = fractions (a + t) n"
proof -
  have "map (\<lambda>c. of_nat (a + c + 1) / (of_nat n :: rat)) [0..<t]
        = map (\<lambda>j. of_nat (j + 1) / of_nat n) (map (\<lambda>c. c + a) [0..<t])"
    by (simp add: o_def add.commute)
  also have "map (\<lambda>c. c + a) [0..<t] = [a..<a + t]"
    by (simp add: map_add_upt add.commute)
  finally have "fractions a n @ map (\<lambda>c. of_nat (a + c + 1) / of_nat n) [0..<t]
        = map (\<lambda>j. of_nat (j + 1) / (of_nat n :: rat)) ([0..<a] @ [a..<a + t])"
    by (simp add: fractions_def)
  also have "[0..<a] @ [a..<a + t] = [0..<a + t]"
    by (simp add: upt_add_eq_append [symmetric])
  finally show ?thesis by (simp add: fractions_def)
qed

lemma placed_blocks:
  assumes "0 < C"
  shows "concat (map (\<lambda>s. map (\<lambda>c. of_nat (s * C + c + 1) / of_nat N)
                         (takeWhile (\<lambda>c. s * C + c < N) [0..<C])) [0..<k])
         = fractions (min (k * C) N) N"
proof (induction k)
  case 0
  then show ?case by (simp add: fractions_def)
next
  case (Suc k)
  have tw: "takeWhile (\<lambda>c. k * C + c < N) [0..<C] = [0..<min C (N - k * C)]"
  proof -
    have "(\<lambda>c. k * C + c < N) = (\<lambda>c. c < N - k * C)" by (rule ext) arith
    then show ?thesis by (simp add: takeWhile_less_upt)
  qed
  have "concat (map (\<lambda>s. map (\<lambda>c. of_nat (s * C + c + 1) / (of_nat N :: rat))
                         (takeWhile (\<lambda>c. s * C + c < N) [0..<C])) [0..<Suc k])
        = fractions (min (k * C) N) N
          @ map (\<lambda>c. of_nat (k * C + c + 1) / of_nat N) [0..<min C (N - k * C)]"
    by (simp only: upt_Suc_append [OF le0] map_append concat_append Suc.IH) (simp add: tw)
  also have "\<dots> = fractions (min (Suc k * C) N) N"
  proof (cases "k * C < N")
    case True
    then have a: "min (k * C) N = k * C" by simp
    have "Suc k * C = k * C + C" by simp
    then have b: "k * C + min C (N - k * C) = min (Suc k * C) N" using True by arith
    show ?thesis unfolding a using fractions_append [of "k * C" N "min C (N - k * C)"] b by simp
  next
    case False
    then have "min (k * C) N = N" "min C (N - k * C) = 0" "min (Suc k * C) N = N"
      by (simp_all add: min_def)
    then show ?thesis by simp
  qed
  finally show ?case .
qed

lemma ceiling_cover:
  assumes "0 < C"
  shows "N \<le> nat \<lceil>(of_nat N :: rat) / of_nat C\<rceil> * C"
proof -
  define z where "z = \<lceil>(of_nat N :: rat) / of_nat C\<rceil>"
  have "(0 :: rat) \<le> of_nat N / of_nat C" by simp
  then have "- 1 < (of_nat N :: rat) / of_nat C" by linarith
  then have z0: "0 \<le> z" unfolding z_def by (simp only: zero_le_ceiling)
  have "(of_nat N :: rat) / of_nat C \<le> of_int z"
    unfolding z_def by (rule le_of_int_ceiling)
  then have "(of_nat N :: rat) \<le> of_int z * of_nat C"
    using assms by (simp add: pos_divide_le_eq)
  also have "(of_int z :: rat) = of_nat (nat z)" using z0 by simp
  finally have "(of_nat N :: rat) \<le> of_nat (nat z * C)" by simp
  then have "N \<le> nat z * C" by (simp only: of_nat_le_iff)
  then show ?thesis unfolding z_def .
qed


lemma layout_cells_pos: "0 < g_cols (layout_geometry lo) * g_rows (layout_geometry lo)"
  by (simp add: layout_geometry_def layout_grid_def Let_def split_def)

lemma placing_trace:
  assumes "0 < g_cols g * g_rows g"
  shows "snd (compose_sheets lib lo g m (py_range 0 (sheet_count g m)) [] u)
           = u @ fractions (length (pages m)) (length (pages m))"
proof -
  define C where "C = nat (g_cols g * g_rows g)"
  define N where "N = length (pages m)"
  define K where "K = nat (sheet_count g m)"
  have cps: "g_cols g * g_rows g = int C" and C0: "0 < C"
    using assms by (simp_all add: C_def)
  have K: "K = nat \<lceil>(of_nat N :: rat) / of_nat C\<rceil>"
    by (simp add: K_def sheet_count_def cps N_def)
  have inner: "map (\<lambda>c. of_int (int s * int C + c + 1) / (of_int (int N) :: rat))
                 (takeWhile (\<lambda>c. int s * int C + c < int N) (map int [0..<C]))
               = map (\<lambda>c. of_nat (s * C + c + 1) / of_nat N)
                   (takeWhile (\<lambda>c. s * C + c < N) [0..<C])" for s
  proof -
    have "(int s * int C + int c < int N) = (s * C + c < N)" for c
      by (simp only: of_nat_mult [symmetric] of_nat_add [symmetric] of_nat_less_iff)
    then have p: "((\<lambda>c. int s * int C + c < int N) \<circ> int) = (\<lambda>c. s * C + c < N)"
      by (simp add: o_def)
    have f: "((\<lambda>c. of_int (int s * int C + c + 1) / (of_int (int N) :: rat)) \<circ> int)
             = (\<lambda>c. of_nat (s * C + c + 1) / of_nat N)"
      by (rule ext) simp
    have "map (\<lambda>c. of_int (int s * int C + c + 1) / (of_int (int N) :: rat))
            (takeWhile (\<lambda>c. int s * int C + c < int N) (map int [0..<C]))
          = map ((\<lambda>c. of_int (int s * int C + c + 1) / (of_int (int N) :: rat)) \<circ> int)
              (takeWhile ((\<lambda>c. int s * int C + c < int N) \<circ> int) [0..<C])"
      by (simp only: takeWhile_map map_map)
    then show ?thesis by (simp only: p f)
  qed
  have "snd (compose_sheets lib lo g m (py_range 0 (sheet_count g m)) [] u)
        = u @ concat (map (\<lambda>s.
              map (\<lambda>c. of_int (s * int C + c + 1) / of_int (int N))
                (takeWhile (\<lambda>c. s * int C + c < int N) (map int [0..<C])))
              (map int [0..<K]))"
    by (simp add: compose_sheets_trace cps py_range_nat N_def K_def)
  also have "\<dots> = u @ concat (map (\<lambda>s.
              map (\<lambda>c. of_nat (s * C + c + 1) / of_nat N)
                (takeWhile (\<lambda>c. s * C + c < N) [0..<C])) [0..<K])"
    by (simp only: map_map o_def inner)
  also have "\<dots> = u @ fractions (min (K * C) N) N"
    by (simp only: placed_blocks [OF C0])
  also have "min (K * C) N = N"
    using ceiling_cover [OF C0, of N] by (simp add: K)
  finally show ?thesis by (simp add: N_def)
qed

lemma sheets_zero_iff:
  assumes "0 < g_cols g * g_rows g"
  shows "nat (sheet_count g m) = 0 \<longleftrightarrow> length (pages m) = 0"
proof -
  define C where "C = nat (g_cols g * g_rows g)"
  have cps: "g_cols g * g_rows g = int C" and C0: "0 < C"
    using assms by (simp_all add: C_def)
  have K: "nat (sheet_count g m) = nat \<lceil>(of_nat (length (pages m)) :: rat) / of_nat C\<rceil>"
    by (simp add: sheet_count_def cps)
  show ?thesis
  proof
    assume "nat (sheet_count g m) = 0"
    then show "length (pages m) = 0"
      using ceiling_cover [OF C0, of "length (pages m)"] by (simp add: K)
  next
    assume "length (pages m) = 0"
    then show "nat (sheet_count g m) = 0" by (simp add: K)
  qed
qed

lemma generate_compact_thread_trace:
  "fst (snd (generate_compact_thread lib lo out_path m fs u)) =
     u @ [0]
       @ fractions (length (pages m)) (length (pages m))
       @ map (\<lambda>v. v * (9 / 10))
           (fractions (nat (sheet_count (layout_geometry lo) m))
                      (nat (sheet_count (layout_geometry lo) m)))
       @ [if length (pages m) = 0 then 0 else 1]"
proof -
  define g where "g = layout_geometry lo"
  define K where "K = nat (sheet_count g m)"
  have pos: "0 < g_cols g * g_rows g" unfolding g_def by (rule layout_cells_pos)
  obtain sheet_images u1 where cs:
    "compose_sheets lib lo g m (py_range 0 (sheet_count g m)) [] (u @ [0])
       = (sheet_images, u1)"
    by (cases "compose_sheets lib lo g m (py_range 0 (sheet_count g m)) [] (u @ [0])")
  have u1: "u1 = (u @ [0]) @ fractions (length (pages m)) (length (pages m))"
    using placing_trace [OF pos, of lib lo m "u @ [0]"] cs by simp
  have len: "length sheet_images = K"
    using compose_sheets_length [of lib lo g m "py_range 0 (sheet_count g m)" "[]"
        "u @ [0]"] cs
    by (simp add: py_range_nat K_def)
  have pr: "prepare_sheets lib (lo_quality lo) (int (length sheet_images)) 0 sheet_images [] u1
            = (map (\<lambda>sh. convert lib (jpeg_reopen lib sh (lo_quality lo)) Mode_RGB) sheet_images,
               u1 @ map (\<lambda>v. v * (9 / 10)) (fractions K K))"
    by (simp add: prepare_sheets_run len fractions_def o_def add.commute)
  have "length sheet_images = 0 \<longleftrightarrow> length (pages m) = 0"
    unfolding len K_def by (rule sheets_zero_iff [OF pos])
  then have z: "sheet_images = [] \<longleftrightarrow> length (pages m) = 0"
    by (simp only: length_0_conv)
  define pp where
    "pp = map (\<lambda>sh. convert lib (jpeg_reopen lib sh (lo_quality lo)) Mode_RGB) sheet_images"
  have gen: "generate_compact_thread lib lo out_path m fs u =
           (case pp of
              [] \<Rightarrow> (fs, (u1 @ map (\<lambda>v. v * (9 / 10)) (fractions K K)) @ [0], Some NothingToSave)
            | first # rest \<Rightarrow>
                (save_pdf fs out_path first rest,
                 (u1 @ map (\<lambda>v. v * (9 / 10)) (fractions K K)) @ [1], None))"
    by (simp add: generate_compact_thread_def Let_def g_def [symmetric] cs pr
        set_progress_append pp_def [symmetric] split: list.splits)
  have e: "pp = [] \<longleftrightarrow> length (pages m) = 0"
    using z by (simp add: pp_def)
  show ?thesis
  proof (cases pp)
    case Nil
    then show ?thesis
      using e by (simp add: gen u1 g_def [symmetric] K_def [symmetric])
  next
    case (Cons first rest)
    then show ?thesis
      using e by (simp add: gen u1 g_def [symmetric] K_def [symmetric])
  qed
qed

lemma fractions_sorted: "k \<le> n \<Longrightarrow> sorted_wrt (<) (fractions k n)"
proof -
  assume kn: "k \<le> n"
  have "sorted_wrt (<) (map (\<lambda>j. of_nat (j + 1) / (of_nat n :: rat)) [0..<k])"
    unfolding sorted_wrt_map
  proof (rule sorted_wrt_mono_rel [of _ "(<)"])
    show "sorted_wrt (<) [0..<k]" by simp
  next
    fix x y
    assume "x \<in> set [0..<k]" "y \<in> set [0..<k]" "x < y"
    then have "0 < n" using kn by simp
    then show "of_nat (x + 1) / (of_nat n :: rat) < of_nat (y + 1) / of_nat n"
      using \<open>x < y\<close> by (simp add: divide_strict_right_mono)
  qed
  then show ?thesis by (simp add: fractions_def)
qed

lemma fractions_bounds: "k \<le> n \<Longrightarrow> v \<in> set (fractions k n) \<Longrightarrow> 0 < v \<and> v \<le> 1"
  by (auto simp: fractions_def)


text \<open>The callback the GUI hands to the manager records the values, as \<open>recording\<close> does.\<close>

lemma thread_progress_callback_records: "thread_progress_callback = recording"
  by (simp add: thread_progress_callback_def recording_def set_progress_def [abs_def])

lemma fractions_scaled_sorted:
  "k \<le> n \<Longrightarrow> sorted_wrt (<) (map (\<lambda>v. v * (9 / 10)) (fractions k n))"
proof -
  assume "k \<le> n"
  then have "sorted_wrt (<) (fractions k n)" by (rule fractions_sorted)
  then show ?thesis
    unfolding sorted_wrt_map by (rule sorted_wrt_mono_rel [rotated]) simp
qed

lemma fractions_scaled_bounds:
  "k \<le> n \<Longrightarrow> v \<in> set (map (\<lambda>v. v * (9 / 10)) (fractions k n)) \<Longrightarrow> 0 < v \<and> v \<le> 9 / 10"
proof -
  assume kn: "k \<le> n" and "v \<in> set (map (\<lambda>v. v * (9 / 10)) (fractions k n))"
  then obtain w where w: "w \<in> set (fractions k n)" and v: "v = w * (9 / 10)" by auto
  from fractions_bounds [OF kn w] show ?thesis unfolding v by simp
qed

text \<open>
  C8 states that the progress values of one operation never decrease, also across the
  whole of the compact generation. For one page on a 2x2 sheet the generation sets the
  progress to 0, to 1 when the page is placed, to 0.9 when the sheet is prepared, and to
  1 after saving: the step from 1 to 0.9 goes down.
\<close>

theorem compact_progress_not_monotone:
  "fst (snd (generate_compact_thread example_pil landscape_2x2 ''out.pdf'' (example_manager 1)
       Map.empty []))
     = [0, 1, 9 / 10, 1]
   \<and> \<not> sorted [0, 1, 9 / 10, 1 :: rat]"
proof -
  have "\<lceil>(1 :: rat) / 4\<rceil> = 1" by (rule ceiling_unique) simp_all
  then have k: "nat (sheet_count (layout_geometry landscape_2x2) (example_manager 1)) = 1"
    by (simp add: sheet_count_def landscape_2x2_geometry example_manager_def)
  have n: "length (pages (example_manager 1)) = 1" by (simp add: example_manager_def)
  have "fst (snd (generate_compact_thread example_pil landscape_2x2 ''out.pdf'' (example_manager 1)
       Map.empty [])) = [0, 1, 9 / 10, 1]"
    unfolding generate_compact_thread_trace k n by (simp add: fractions_def)
  then show ?thesis by simp
qed

text \<open>
  C8 as amended. A manager operation that takes a progress callback calls it with
  \<open>1/n, 2/n, ..., n/n\<close>: \<^verbatim>\<open>reprocess_all_pages\<close> and \<^verbatim>\<open>load_pdf\<close> with \<open>n\<close> the
  number of pages, \<^verbatim>\<open>export_pdf\<close> with \<open>n\<close> the number of requested indices (for a
  document whose lists have one length and indices the lists accept). These values
  increase strictly and lie in \<open>(0, 1]\<close>. The compact generation sets the progress to 0,
  then to \<open>1/N, ..., N/N\<close> while it places the \<open>N\<close> pages, then to
  \<open>0.9 \<cdot> 1/K, ..., 0.9 \<cdot> K/K\<close> while it prepares the \<open>K\<close> sheets, then to 1 (to 0 when
  there is nothing to save). Every value lies in \<open>[0, 1]\<close> and each of the two phases
  increases; the sequence as a whole is not monotone, because the preparation starts
  again below the 1 the placement ended with.
\<close>

theorem progress_monotone_within_phase:
  "(lengths_agree m \<longrightarrow>
      fst (snd (reprocess_all_pages lib st recording m []))
        = fractions (length (pages m)) (length (pages m)))
   \<and> snd (load_pdf lib doc st recording m0 []) = fractions (length doc) (length doc)
   \<and> (lengths_agree m \<and> (\<forall>idx \<in> set page_indices. valid_index (length (pages m)) idx) \<longrightarrow>
        fst (snd (export_pdf lib out_path page_indices recording quality m fs []))
          = fractions (length page_indices) (length page_indices))
   \<and> sorted_wrt (<) (fractions n n)
   \<and> (\<forall>v \<in> set (fractions n n). 0 < v \<and> v \<le> 1)
   \<and> fst (snd (generate_compact_thread lib lo out_path m fs []))
        = [0] @ fractions (length (pages m)) (length (pages m))
          @ map (\<lambda>v. v * (9 / 10))
              (fractions (nat (sheet_count (layout_geometry lo) m))
                         (nat (sheet_count (layout_geometry lo) m)))
          @ [if length (pages m) = 0 then 0 else 1]
   \<and> sorted_wrt (<) (map (\<lambda>v. v * (9 / 10)) (fractions n n))
   \<and> (\<forall>v \<in> set (map (\<lambda>v. v * (9 / 10)) (fractions n n)). 0 < v \<and> v \<le> 9 / 10)"
proof (intro conjI impI ballI)
  assume "lengths_agree m"
  then show "fst (snd (reprocess_all_pages lib st recording m []))
        = fractions (length (pages m)) (length (pages m))"
    by (simp add: lengths_agree_def reprocess_all_pages_run notify_from_recording fractions_def
        add.commute)
next
  show "snd (load_pdf lib doc st recording m0 []) = fractions (length doc) (length doc)"
    by (simp add: load_pdf_run notify_from_recording fractions_def add.commute)
next
  assume "lengths_agree m \<and> (\<forall>idx \<in> set page_indices. valid_index (length (pages m)) idx)"
  then have l: "length (selected m) = length (pages m)"
    and v: "\<forall>idx \<in> set page_indices. valid_index (length (pages m)) idx"
    unfolding lengths_agree_def by metis+
  show "fst (snd (export_pdf lib out_path page_indices recording quality m fs []))
          = fractions (length page_indices) (length page_indices)"
    by (simp add: export_pdf_run [OF l v] notify_from_recording fractions_def add.commute)
next
  show "sorted_wrt (<) (fractions n n)" by (rule fractions_sorted) simp
next
  fix v assume "v \<in> set (fractions n n)"
  then show "0 < v" "v \<le> 1" using fractions_bounds [of n n v] by simp_all
next
  show "fst (snd (generate_compact_thread lib lo out_path m fs []))
        = [0] @ fractions (length (pages m)) (length (pages m))
          @ map (\<lambda>v. v * (9 / 10))
              (fractions (nat (sheet_count (layout_geometry lo) m))
                         (nat (sheet_count (layout_geometry lo) m)))
          @ [if length (pages m) = 0 then 0 else 1]"
    using generate_compact_thread_trace [of lib lo out_path m fs "[]"] by simp
next
  show "sorted_wrt (<) (map (\<lambda>v. v * (9 / 10)) (fractions n n))"
    by (rule fractions_scaled_sorted) simp
next
  fix v assume "v \<in> set (map (\<lambda>v. v * (9 / 10)) (fractions n n))"
  then show "0 < v" "v \<le> 9 / 10" using fractions_scaled_bounds [of n n v] by simp_all
qed

theorem progress_monotone_within_phase_witness:
  "fst (snd (reprocess_all_pages example_pil (enhancement_parameters 2 1 1 False) recording
       (example_manager 2) []))
     = [1 / 2, 1]
   \<and> fst (snd (export_pdf example_pil ''out.pdf'' [1, 0] recording 85 (example_manager 2)
       Map.empty []))
     = [1 / 2, 1]
   \<and> sorted_wrt (<) [1 / 2, 1 :: rat]
   \<and> fst (snd (generate_compact_thread example_pil landscape_2x2 ''out.pdf'' (example_manager 2)
       Map.empty []))
     = [0, 1 / 2, 1, 9 / 10, 1]"
proof -
  have la: "lengths_agree (example_manager 2)"
    by (simp add: lengths_agree_def example_manager_def)
  have vi: "\<forall>idx \<in> set [1, 0]. valid_index (length (pages (example_manager 2))) idx"
    by (simp add: valid_index_def example_manager_def)
  have n: "length (pages (example_manager 2)) = 2" by (simp add: example_manager_def)
  have fr: "fractions 2 2 = [1 / 2, 1]" and fr1: "fractions 1 1 = [1]"
    by (simp_all add: fractions_def upt_rec)
  have len2: "length [1 :: int, 0] = 2" by simp
  have k: "nat (sheet_count (layout_geometry landscape_2x2) (example_manager 2)) = 1"
    using two_pages_sheet_count [of "example_manager 2"] n by simp
  note t = progress_monotone_within_phase [of "example_manager 2" example_pil
             "enhancement_parameters 2 1 1 False" "[]" "\<lparr>original_pages = [], pages = [], selected = []\<rparr>"
             "[1, 0]" "''out.pdf''" 85 Map.empty 2 landscape_2x2]
  have a: "fst (snd (reprocess_all_pages example_pil (enhancement_parameters 2 1 1 False) recording
             (example_manager 2) []))
           = fractions (length (pages (example_manager 2))) (length (pages (example_manager 2)))"
    using t la by blast
  have b: "fst (snd (export_pdf example_pil ''out.pdf'' [1, 0] recording 85 (example_manager 2)
             Map.empty []))
           = fractions (length [1 :: int, 0]) (length [1 :: int, 0])"
    using t la vi by blast
  have c: "sorted_wrt (<) (fractions 2 2)" using t by blast
  have d: "fst (snd (generate_compact_thread example_pil landscape_2x2 ''out.pdf'' (example_manager 2)
             Map.empty []))
           = [0] @ fractions (length (pages (example_manager 2))) (length (pages (example_manager 2)))
             @ map (\<lambda>v. v * (9 / 10))
                 (fractions (nat (sheet_count (layout_geometry landscape_2x2) (example_manager 2)))
                            (nat (sheet_count (layout_geometry landscape_2x2) (example_manager 2))))
             @ [if length (pages (example_manager 2)) = 0 then 0 else 1]"
    using t by blast
  have a': "fst (snd (reprocess_all_pages example_pil (enhancement_parameters 2 1 1 False)
              recording (example_manager 2) [])) = [1 / 2, 1]"
    using a unfolding n fr .
  have b': "fst (snd (export_pdf example_pil ''out.pdf'' [1, 0] recording 85 (example_manager 2)
              Map.empty [])) = [1 / 2, 1]"
    using b unfolding len2 fr .
  have c': "sorted_wrt (<) [1 / 2, 1 :: rat]" using c unfolding fr .
  have d': "fst (snd (generate_compact_thread example_pil landscape_2x2 ''out.pdf''
              (example_manager 2) Map.empty [])) = [0, 1 / 2, 1, 9 / 10, 1]"
    using d unfolding n k fr fr1 by simp
  show ?thesis using a' b' c' d' by blast
qed

end
